theory Spec2Isabelle
  imports Complex_Main "HOL-Library.AList" "HOL-Library.Product_Lexorder"
begin

section \<open>Numbers\<close>

text \<open>
  The numeric cells of both programs are Python floats. A float is modelled as an exact
  rational or one of the three special values: not-a-number and the two infinities.
  Arithmetic on the special values follows IEEE 754; arithmetic on finite values is
  exact, so rounding and overflow of doubles are outside this model.
\<close>

datatype fl = NaN | NInf | Fin rat | PInf

datatype error = KeyError string | ZeroDivisionError

text \<open>\<^verbatim>\<open>pd.notna(x)\<close>\<close>

definition notna :: "fl \<Rightarrow> bool" where
  "notna x = (x \<noteq> NaN)"

fun fl_neg :: "fl \<Rightarrow> fl" where
  "fl_neg NaN = NaN"
| "fl_neg NInf = PInf"
| "fl_neg PInf = NInf"
| "fl_neg (Fin a) = Fin (- a)"

fun fl_add :: "fl \<Rightarrow> fl \<Rightarrow> fl" where
  "fl_add NaN y = NaN"
| "fl_add x NaN = NaN"
| "fl_add (Fin a) (Fin b) = Fin (a + b)"
| "fl_add PInf NInf = NaN"
| "fl_add NInf PInf = NaN"
| "fl_add PInf y = PInf"
| "fl_add x PInf = PInf"
| "fl_add NInf y = NInf"
| "fl_add x NInf = NInf"

definition fl_sub :: "fl \<Rightarrow> fl \<Rightarrow> fl" where
  "fl_sub x y = fl_add x (fl_neg y)"

text \<open>The product of an infinity and a finite number: its sign, or NaN at zero.\<close>

definition inf_times :: "bool \<Rightarrow> rat \<Rightarrow> fl" where
  "inf_times positive a =
     (if a = 0 then NaN else if (0 < a) = positive then PInf else NInf)"

fun fl_mul :: "fl \<Rightarrow> fl \<Rightarrow> fl" where
  "fl_mul NaN y = NaN"
| "fl_mul x NaN = NaN"
| "fl_mul (Fin a) (Fin b) = Fin (a * b)"
| "fl_mul (Fin a) PInf = inf_times True a"
| "fl_mul (Fin a) NInf = inf_times False a"
| "fl_mul PInf (Fin b) = inf_times True b"
| "fl_mul NInf (Fin b) = inf_times False b"
| "fl_mul PInf PInf = PInf"
| "fl_mul NInf NInf = PInf"
| "fl_mul PInf NInf = NInf"
| "fl_mul NInf PInf = NInf"

text \<open>The quotient where the denominator is not zero.\<close>

fun fl_quot :: "fl \<Rightarrow> fl \<Rightarrow> fl" where
  "fl_quot NaN y = NaN"
| "fl_quot x NaN = NaN"
| "fl_quot (Fin a) (Fin b) = Fin (a / b)"
| "fl_quot (Fin a) y = Fin 0"
| "fl_quot PInf (Fin b) = (if b < 0 then NInf else PInf)"
| "fl_quot NInf (Fin b) = (if b < 0 then PInf else NInf)"
| "fl_quot x y = NaN"

text \<open>Python's \<^verbatim>\<open>x / y\<close> on floats raises at a zero denominator.\<close>

definition truediv :: "fl \<Rightarrow> fl \<Rightarrow> error + fl" where
  "truediv x y = (if y = Fin 0 then Inl ZeroDivisionError else Inr (fl_quot x y))"

text \<open>\<^verbatim>\<open>x > y\<close>: false whenever an operand is NaN.\<close>

fun fl_gt :: "fl \<Rightarrow> fl \<Rightarrow> bool" where
  "fl_gt NaN y = False"
| "fl_gt x NaN = False"
| "fl_gt (Fin a) (Fin b) = (b < a)"
| "fl_gt x PInf = False"
| "fl_gt NInf y = False"
| "fl_gt x y = True"

text \<open>The order a sort puts floats in: NaN last.\<close>

fun fl_key :: "fl \<Rightarrow> nat \<times> rat" where
  "fl_key NInf = (0, 0)"
| "fl_key (Fin a) = (1, a)"
| "fl_key PInf = (2, 0)"
| "fl_key NaN = (3, 0)"

section \<open>Errors\<close>

definition bind_err :: "'e + 'a \<Rightarrow> ('a \<Rightarrow> 'e + 'b) \<Rightarrow> 'e + 'b" where
  "bind_err m f = (case m of Inl e \<Rightarrow> Inl e | Inr x \<Rightarrow> f x)"

fun map_err :: "('a \<Rightarrow> 'e + 'b) \<Rightarrow> 'a list \<Rightarrow> 'e + 'b list" where
  "map_err f [] = Inr []"
| "map_err f (x # xs) =
     bind_err (f x) (\<lambda>y. bind_err (map_err f xs) (\<lambda>ys. Inr (y # ys)))"

section \<open>The streaming variant: \<^verbatim>\<open>medicaid_outliers-stream.py\<close>\<close>

subsection \<open>\<^verbatim>\<open>safe_ratio\<close>\<close>

definition safe_ratio :: "fl \<Rightarrow> fl \<Rightarrow> error + fl" where
  "safe_ratio numerator denominator =
     (if denominator \<noteq> Fin 0 then truediv numerator denominator else Inr NaN)"

subsection \<open>Rows and the store\<close>

text \<open>
  A row is a Python dict from field names to strings, in insertion order: an association
  list with unique keys. \<^verbatim>\<open>row[k] = v\<close> is \<^const>\<open>AList.update\<close>: it
  replaces the value of a key the dict has and appends a key it has not.
  The rows are objects the caller shares with \<^verbatim>\<open>detect_outliers\<close>, so a group is a
  list of addresses into a store.
\<close>

type_synonym row = "(string \<times> string) list"
type_synonym addr = nat
type_synonym heap = "addr \<Rightarrow> row"

subsection \<open>The quantile and the upper fence\<close>

text \<open>
  \<^verbatim>\<open>Series.quantile(q)\<close> with the default linear interpolation: the NaN entries are
  skipped, the rest sorted, and the value at the position \<open>(n - 1) * q\<close> interpolated
  between its two neighbours. A series with no valid entry gives NaN.
  The interpolation is written \<open>a + (b - a) * t\<close>; the library takes
  \<open>b - (b - a) * (1 - t)\<close> from \<open>t = 1/2\<close> on, which is the same number for finite
  entries and can differ next to an infinite one.
\<close>

definition lerp :: "fl \<Rightarrow> fl \<Rightarrow> rat \<Rightarrow> fl" where
  "lerp a b t = fl_add a (fl_mul (fl_sub b a) (Fin t))"

definition quantile :: "fl list \<Rightarrow> rat \<Rightarrow> fl" where
  "quantile series q =
     (let vs = sort_key fl_key (filter notna series); n = length vs in
      if n = 0 then NaN
      else
        let pos = of_nat (n - 1) * q;
            lo = nat \<lfloor>pos\<rfloor>;
            hi = min (lo + 1) (n - 1)
        in lerp (vs ! lo) (vs ! hi) (pos - of_nat lo))"

definition get_upper_bound :: "fl list \<Rightarrow> fl" where
  "get_upper_bound series =
     (if length series < 4 then PInf
      else
        let q1 = quantile series (1 / 4);
            q3 = quantile series (3 / 4);
            iqr = fl_sub q3 q1
        in fl_add q3 (fl_mul (Fin (3 / 2)) iqr))"

subsection \<open>The data frames of \<^verbatim>\<open>detect_outliers\<close>\<close>

text \<open>
  Of a data frame the programs read the index and the numeric columns only. A frame is
  the list of its rows; \<open>idx\<close> is the row's index label, its position in the group.
\<close>

record frame_row =
  idx :: nat
  TOTAL_PAID :: fl
  TOTAL_UNIQUE_BENEFICIARIES :: fl
  TOTAL_CLAIMS :: fl

record stream_row = frame_row +
  PAID_PER_BENEF :: fl
  PAID_PER_CLAIM :: fl

definition numeric_cols :: "string list" where
  "numeric_cols = [''TOTAL_PAID'', ''TOTAL_UNIQUE_BENEFICIARIES'', ''TOTAL_CLAIMS'']"

text \<open>
  \<^verbatim>\<open>pd.DataFrame(group_rows)\<close> has a column for every key of some row; a row without
  the key holds NaN there. \<^verbatim>\<open>df[col]\<close> raises KeyError for a column no row has.
\<close>

definition has_column :: "row list \<Rightarrow> string \<Rightarrow> bool" where
  "has_column rows col = list_ex (\<lambda>r. map_of r col \<noteq> None) rows"

text \<open>
  \<^verbatim>\<open>pd.to_numeric(..., errors='coerce')\<close> is the library's: the parameter
  \<open>to_numeric\<close> gives the float of a cell, NaN for one that does not parse.
\<close>

definition cell :: "(string \<Rightarrow> fl) \<Rightarrow> row \<Rightarrow> string \<Rightarrow> fl" where
  "cell to_numeric r col = (case map_of r col of None \<Rightarrow> NaN | Some s \<Rightarrow> to_numeric s)"

definition coerce_row :: "(string \<Rightarrow> fl) \<Rightarrow> nat \<Rightarrow> row \<Rightarrow> frame_row" where
  "coerce_row to_numeric i r =
     \<lparr>idx = i,
      TOTAL_PAID = cell to_numeric r ''TOTAL_PAID'',
      TOTAL_UNIQUE_BENEFICIARIES = cell to_numeric r ''TOTAL_UNIQUE_BENEFICIARIES'',
      TOTAL_CLAIMS = cell to_numeric r ''TOTAL_CLAIMS''\<rparr>"

definition coerce :: "(string \<Rightarrow> fl) \<Rightarrow> row list \<Rightarrow> error + frame_row list" where
  "coerce to_numeric rows =
     (case filter (\<lambda>col. \<not> has_column rows col) numeric_cols of
        col # _ \<Rightarrow> Inl (KeyError col)
      | [] \<Rightarrow> Inr (map (\<lambda>(i, r). coerce_row to_numeric i r) (enumerate 0 rows)))"

text \<open>\<^verbatim>\<open>df.dropna(subset=numeric_cols)\<close>\<close>

definition dropna_numeric :: "frame_row list \<Rightarrow> frame_row list" where
  "dropna_numeric df =
     filter (\<lambda>r. notna (TOTAL_PAID r) \<and> notna (TOTAL_UNIQUE_BENEFICIARIES r) \<and>
                 notna (TOTAL_CLAIMS r)) df"

text \<open>
  The two derived columns. The source fills one column, then the other; the only error a
  cell can raise is the same in both, so the model derives both cells of a row together.
\<close>

definition derive_row :: "frame_row \<Rightarrow> error + stream_row" where
  "derive_row r =
     bind_err (safe_ratio (TOTAL_PAID r) (TOTAL_UNIQUE_BENEFICIARIES r)) (\<lambda>per_benef.
     bind_err (safe_ratio (TOTAL_PAID r) (TOTAL_CLAIMS r)) (\<lambda>per_claim.
       Inr \<lparr>idx = idx r,
            TOTAL_PAID = TOTAL_PAID r,
            TOTAL_UNIQUE_BENEFICIARIES = TOTAL_UNIQUE_BENEFICIARIES r,
            TOTAL_CLAIMS = TOTAL_CLAIMS r,
            PAID_PER_BENEF = per_benef,
            PAID_PER_CLAIM = per_claim\<rparr>))"

text \<open>\<^verbatim>\<open>df.dropna(subset=['PAID_PER_BENEF', 'PAID_PER_CLAIM'])\<close>\<close>

definition dropna_ratios :: "stream_row list \<Rightarrow> stream_row list" where
  "dropna_ratios df = filter (\<lambda>r. notna (PAID_PER_BENEF r) \<and> notna (PAID_PER_CLAIM r)) df"

text \<open>
  Lines 17 to 46 of \<^verbatim>\<open>detect_outliers\<close>: the frames \<open>df\<close> and \<open>df_clean\<close>, or
  \<open>None\<close> where the function returns the empty list at one of its three gates.
\<close>

definition frames ::
  "(string \<Rightarrow> fl) \<Rightarrow> row list \<Rightarrow> error + (stream_row list \<times> stream_row list) option" where
  "frames to_numeric group_rows =
     (if length group_rows < 4 then Inr None
      else
        bind_err (coerce to_numeric group_rows) (\<lambda>df0.
          let df1 = dropna_numeric df0 in
          if length df1 < 4 then Inr None
          else
            bind_err (map_err derive_row df1) (\<lambda>df.
              let df_clean = dropna_ratios df in
              if length df_clean < 4 then Inr None else Inr (Some (df, df_clean)))))"

record bounds =
  high_total_paid :: fl
  high_paid_per_benef :: fl
  high_paid_per_claim :: fl
  high_unique_benef :: fl

definition compute_bounds :: "stream_row list \<Rightarrow> bounds" where
  "compute_bounds df_clean =
     \<lparr>high_total_paid = get_upper_bound (map TOTAL_PAID df_clean),
      high_paid_per_benef = get_upper_bound (map PAID_PER_BENEF df_clean),
      high_paid_per_claim = get_upper_bound (map PAID_PER_CLAIM df_clean),
      high_unique_benef = get_upper_bound (map TOTAL_UNIQUE_BENEFICIARIES df_clean)\<rparr>"

subsection \<open>The flags\<close>

definition row_flags :: "bounds \<Rightarrow> stream_row \<Rightarrow> string list" where
  "row_flags b r =
     (if notna (TOTAL_PAID r) \<and> fl_gt (TOTAL_PAID r) (high_total_paid b)
      then [''high_total_paid''] else []) @
     (if notna (PAID_PER_BENEF r) \<and> fl_gt (PAID_PER_BENEF r) (high_paid_per_benef b)
      then [''high_paid_per_benef''] else []) @
     (if notna (PAID_PER_CLAIM r) \<and> fl_gt (PAID_PER_CLAIM r) (high_paid_per_claim b)
      then [''high_paid_per_claim''] else []) @
     (if notna (TOTAL_UNIQUE_BENEFICIARIES r) \<and>
         fl_gt (TOTAL_UNIQUE_BENEFICIARIES r) (high_unique_benef b)
      then [''high_unique_beneficiaries''] else [])"

text \<open>\<^verbatim>\<open>sep.join(xs)\<close>\<close>

fun join :: "string \<Rightarrow> string list \<Rightarrow> string" where
  "join sep [] = []"
| "join sep [x] = x"
| "join sep (x # y # ys) = x @ sep @ join sep (y # ys)"

text \<open>
  The loop of lines 68 to 92 over the index of \<open>df\<close>: a flagged row's dict is updated in
  the store, and its address appended to \<open>flagged_rows\<close>.
\<close>

fun flag_loop ::
  "bounds \<Rightarrow> addr list \<Rightarrow> stream_row list \<Rightarrow> addr list \<times> heap \<Rightarrow> addr list \<times> heap" where
  "flag_loop b group_rows [] acc = acc"
| "flag_loop b group_rows (r # rs) (flagged_rows, h) =
     (let flags = row_flags b r in
      if flags \<noteq> [] then
        let original_row = group_rows ! idx r;
            h' = h(original_row := AList.update ''OUTLIER_REASONS'' (join '','' flags) (h original_row))
        in flag_loop b group_rows rs (flagged_rows @ [original_row], h')
      else flag_loop b group_rows rs (flagged_rows, h))"

definition detect_outliers ::
  "(string \<Rightarrow> fl) \<Rightarrow> heap \<Rightarrow> addr list \<Rightarrow> error + addr list \<times> heap" where
  "detect_outliers to_numeric h group_rows =
     bind_err (frames to_numeric (map h group_rows)) (\<lambda>fr.
       case fr of
         None \<Rightarrow> Inr ([], h)
       | Some (df, df_clean) \<Rightarrow>
           Inr (flag_loop (compute_bounds df_clean) group_rows df ([], h)))"

text \<open>The rows the caller sees in the returned list after the call.\<close>

definition emitted :: "error + addr list \<times> heap \<Rightarrow> error + row list" where
  "emitted res = (case res of Inl e \<Rightarrow> Inl e | Inr (flagged_rows, h) \<Rightarrow> Inr (map h flagged_rows))"

text \<open>The addresses in the returned list.\<close>

definition returned :: "error + addr list \<times> heap \<Rightarrow> error + addr list" where
  "returned res = (case res of Inl e \<Rightarrow> Inl e | Inr (flagged_rows, h) \<Rightarrow> Inr flagged_rows)"

subsection \<open>\<^verbatim>\<open>main\<close>\<close>

text \<open>
  The reader yields the row objects of the file in order: a list of addresses. The state
  is the local variables of \<^verbatim>\<open>main\<close> and the store.
\<close>

record main_state =
  outlier_rows :: "addr list"
  current_group_rows :: "addr list"
  current_key :: "(string \<times> string) option"
  total_outliers :: nat
  total_rows_processed :: nat
  store :: heap

definition row_key :: "row \<Rightarrow> error + string \<times> string" where
  "row_key r =
     (case map_of r ''HCPCS_CODE'' of
        None \<Rightarrow> Inl (KeyError ''HCPCS_CODE'')
      | Some code \<Rightarrow>
          (case map_of r ''CLAIM_FROM_MONTH'' of
             None \<Rightarrow> Inl (KeyError ''CLAIM_FROM_MONTH'')
           | Some month \<Rightarrow> Inr (code, month)))"

text \<open>Lines 117 to 120, and again 128 to 131: the pending group goes to the detector.\<close>

definition process_group :: "(string \<Rightarrow> fl) \<Rightarrow> main_state \<Rightarrow> error + main_state" where
  "process_group to_numeric st =
     bind_err (detect_outliers to_numeric (store st) (current_group_rows st)) (\<lambda>(outliers, h').
       Inr (if outliers \<noteq> []
            then st\<lparr>outlier_rows := outlier_rows st @ outliers,
                    total_outliers := total_outliers st + length outliers,
                    store := h'\<rparr>
            else st\<lparr>store := h'\<rparr>))"

definition main_step :: "(string \<Rightarrow> fl) \<Rightarrow> main_state \<Rightarrow> addr \<Rightarrow> error + main_state" where
  "main_step to_numeric st a =
     (let st1 = st\<lparr>total_rows_processed := total_rows_processed st + 1\<rparr> in
      bind_err (row_key (store st1 a)) (\<lambda>key.
      bind_err
        (if Some key \<noteq> current_key st1 \<and> current_group_rows st1 \<noteq> []
         then bind_err (process_group to_numeric st1)
                (\<lambda>st2. Inr (st2\<lparr>current_group_rows := []\<rparr>))
         else Inr st1) (\<lambda>st3.
      Inr (st3\<lparr>current_key := Some key,
               current_group_rows := current_group_rows st3 @ [a]\<rparr>))))"

fun main_loop :: "(string \<Rightarrow> fl) \<Rightarrow> main_state \<Rightarrow> addr list \<Rightarrow> error + main_state" where
  "main_loop to_numeric st [] = Inr st"
| "main_loop to_numeric st (a # reader) =
     bind_err (main_step to_numeric st a) (\<lambda>st'. main_loop to_numeric st' reader)"

definition initial_state :: "heap \<Rightarrow> main_state" where
  "initial_state h =
     \<lparr>outlier_rows = [], current_group_rows = [], current_key = None,
      total_outliers = 0, total_rows_processed = 0, store = h\<rparr>"

text \<open>
  The run up to the end of the \<^verbatim>\<open>with\<close> block: the loop, then the final group.
\<close>

definition main_read :: "(string \<Rightarrow> fl) \<Rightarrow> heap \<Rightarrow> addr list \<Rightarrow> error + main_state" where
  "main_read to_numeric h reader =
     bind_err (main_loop to_numeric (initial_state h) reader) (\<lambda>st.
       if current_group_rows st \<noteq> [] then process_group to_numeric st else Inr st)"

text \<open>The rows written to the output file; \<open>None\<close> where no file is written.\<close>

definition main :: "(string \<Rightarrow> fl) \<Rightarrow> heap \<Rightarrow> addr list \<Rightarrow> error + row list option" where
  "main to_numeric h reader =
     bind_err (main_read to_numeric h reader) (\<lambda>st.
       if total_outliers st = 0 then Inr None
       else Inr (Some (map (store st) (outlier_rows st))))"

section \<open>The chunked variant: \<^verbatim>\<open>medicaid_outliers.py\<close>\<close>

text \<open>
  Its \<^verbatim>\<open>detect_outliers\<close> takes the group (here \<open>grp\<close>) as a data frame whose
  columns \<^verbatim>\<open>read_csv\<close> has parsed, and returns the rows of the frame it selects.
\<close>

definition detect_outliers_chunked :: "frame_row list \<Rightarrow> frame_row list" where
  "detect_outliers_chunked grp =
     (if length grp < 4 then []
      else
        let Q1 = quantile (map TOTAL_PAID grp) (1 / 4);
            Q3 = quantile (map TOTAL_PAID grp) (3 / 4);
            IQR = fl_sub Q3 Q1;
            upper_bound = fl_add Q3 (fl_mul (Fin (3 / 2)) IQR)
        in filter (\<lambda>r. fl_gt (TOTAL_PAID r) upper_bound) grp)"

text \<open>
  The indices the chunked detector selects when it is given the frame of the records a
  group of the streaming variant holds, so that the two can be compared on one input.
\<close>

definition chunked_on :: "(string \<Rightarrow> fl) \<Rightarrow> row list \<Rightarrow> error + nat list" where
  "chunked_on to_numeric rows =
     (case coerce to_numeric rows of
        Inl e \<Rightarrow> Inl e
      | Inr frame \<Rightarrow> Inr (map idx (detect_outliers_chunked frame)))"

section \<open>The words of the specification\<close>

text \<open>The upper IQR fence: Q3 + 1.5 * (Q3 - Q1).\<close>

definition iqr_fence :: "fl list \<Rightarrow> fl" where
  "iqr_fence series =
     fl_add (quantile series (3 / 4))
       (fl_mul (Fin (3 / 2)) (fl_sub (quantile series (3 / 4)) (quantile series (1 / 4))))"

text \<open>A derived ratio: the quotient, undefined (NaN) at a zero denominator.\<close>

definition ratio :: "fl \<Rightarrow> fl \<Rightarrow> fl" where
  "ratio paid denominator = (if denominator = Fin 0 then NaN else fl_quot paid denominator)"

text \<open>A record of the frame with its two derived ratios.\<close>

definition with_ratios :: "frame_row \<Rightarrow> stream_row" where
  "with_ratios r =
     \<lparr>idx = idx r,
      TOTAL_PAID = TOTAL_PAID r,
      TOTAL_UNIQUE_BENEFICIARIES = TOTAL_UNIQUE_BENEFICIARIES r,
      TOTAL_CLAIMS = TOTAL_CLAIMS r,
      PAID_PER_BENEF = ratio (TOTAL_PAID r) (TOTAL_UNIQUE_BENEFICIARIES r),
      PAID_PER_CLAIM = ratio (TOTAL_PAID r) (TOTAL_CLAIMS r)\<rparr>"

text \<open>
  The records of a group that survive numeric coercion, each with its derived ratios
  (steps 1 to 3 of the Outlier Detector).
\<close>

definition frame_of :: "(string \<Rightarrow> fl) \<Rightarrow> row list \<Rightarrow> stream_row list" where
  "frame_of to_numeric rows =
     map with_ratios
       (dropna_numeric (map (\<lambda>(i, r). coerce_row to_numeric i r) (enumerate 0 rows)))"

text \<open>A record whose three numeric fields are valid after coercion.\<close>

definition numeric_valid :: "(string \<Rightarrow> fl) \<Rightarrow> row \<Rightarrow> bool" where
  "numeric_valid to_numeric r =
     (notna (cell to_numeric r ''TOTAL_PAID'') \<and>
      notna (cell to_numeric r ''TOTAL_UNIQUE_BENEFICIARIES'') \<and>
      notna (cell to_numeric r ''TOTAL_CLAIMS''))"

text \<open>A record whose two derived ratios are valid as well.\<close>

definition fully_valid :: "(string \<Rightarrow> fl) \<Rightarrow> row \<Rightarrow> bool" where
  "fully_valid to_numeric r =
     (numeric_valid to_numeric r \<and>
      notna (ratio (cell to_numeric r ''TOTAL_PAID'') (cell to_numeric r ''TOTAL_UNIQUE_BENEFICIARIES'')) \<and>
      notna (ratio (cell to_numeric r ''TOTAL_PAID'') (cell to_numeric r ''TOTAL_CLAIMS'')))"

text \<open>
  The four metrics of a record: TOTAL_PAID, PAID_PER_BENEF, PAID_PER_CLAIM and
  TOTAL_UNIQUE_BENEFICIARIES.
\<close>

definition metrics :: "(string \<Rightarrow> fl) \<Rightarrow> row \<Rightarrow> fl \<times> fl \<times> fl \<times> fl" where
  "metrics to_numeric r =
     (cell to_numeric r ''TOTAL_PAID'',
      ratio (cell to_numeric r ''TOTAL_PAID'') (cell to_numeric r ''TOTAL_UNIQUE_BENEFICIARIES''),
      ratio (cell to_numeric r ''TOTAL_PAID'') (cell to_numeric r ''TOTAL_CLAIMS''),
      cell to_numeric r ''TOTAL_UNIQUE_BENEFICIARIES'')"

text \<open>The required numeric fields are columns of the group's frame.\<close>

definition has_numeric_cols :: "row list \<Rightarrow> bool" where
  "has_numeric_cols rows = list_all (has_column rows) numeric_cols"

text \<open>The fixed check order of the flags.\<close>

definition flag_order :: "string list" where
  "flag_order =
     [''high_total_paid'', ''high_paid_per_benef'', ''high_paid_per_claim'',
      ''high_unique_beneficiaries'']"

section \<open>Test data\<close>

text \<open>A parser of unsigned decimal integers, NaN for every other string.\<close>

definition is_digit :: "char \<Rightarrow> bool" where
  "is_digit c = (48 \<le> (of_char c :: nat) \<and> (of_char c :: nat) \<le> 57)"

definition to_numeric_digits :: "string \<Rightarrow> fl" where
  "to_numeric_digits s =
     (if s \<noteq> [] \<and> list_all is_digit s
      then Fin (of_nat (foldl (\<lambda>n c. 10 * n + (of_char c - 48)) 0 s))
      else NaN)"

definition claim_row :: "string \<Rightarrow> string \<Rightarrow> string \<Rightarrow> string \<Rightarrow> row" where
  "claim_row code paid benef claims =
     [(''HCPCS_CODE'', code), (''CLAIM_FROM_MONTH'', ''2024-01''),
      (''TOTAL_UNIQUE_BENEFICIARIES'', benef), (''TOTAL_CLAIMS'', claims),
      (''TOTAL_PAID'', paid)]"

text \<open>A store holding the rows at the addresses 0, 1, ...\<close>

definition heap_of :: "row list \<Rightarrow> heap" where
  "heap_of rows a = (if a < length rows then rows ! a else [])"

text \<open>Six fully valid records with TOTAL_PAID 10, 12, 13, 14, 15 and 100.\<close>

definition paid_rows :: "row list" where
  "paid_rows =
     [claim_row ''99213'' ''10'' ''1'' ''2'', claim_row ''99213'' ''12'' ''1'' ''2'',
      claim_row ''99213'' ''13'' ''1'' ''2'', claim_row ''99213'' ''14'' ''1'' ''2'',
      claim_row ''99213'' ''15'' ''1'' ''2'', claim_row ''99213'' ''100'' ''1'' ''2'']"

text \<open>The group of \<open>paid_rows\<close>, its last record with no beneficiary.\<close>

definition zero_benef_rows :: "row list" where
  "zero_benef_rows =
     [claim_row ''99213'' ''10'' ''1'' ''2'', claim_row ''99213'' ''12'' ''1'' ''2'',
      claim_row ''99213'' ''13'' ''1'' ''2'', claim_row ''99213'' ''14'' ''1'' ''2'',
      claim_row ''99213'' ''15'' ''1'' ''2'', claim_row ''99213'' ''100'' ''0'' ''2'']"

definition zero_benef_record :: stream_row where
  "zero_benef_record =
     \<lparr>idx = 5, TOTAL_PAID = Fin 100, TOTAL_UNIQUE_BENEFICIARIES = Fin 0,
      TOTAL_CLAIMS = Fin 2, PAID_PER_BENEF = NaN, PAID_PER_CLAIM = Fin 50\<rparr>"

text \<open>Five records of which three are fully valid.\<close>

definition three_valid_rows :: "row list" where
  "three_valid_rows =
     [claim_row ''99213'' ''10'' ''1'' ''2'', claim_row ''99213'' ''n/a'' ''1'' ''2'',
      claim_row ''99213'' ''13'' ''1'' ''2'', claim_row ''99213'' ''14'' ''0'' ''2'',
      claim_row ''99213'' ''900'' ''1'' ''2'']"

text \<open>The group of \<open>paid_rows\<close>, its last record with no claim.\<close>

definition zero_claims_rows :: "row list" where
  "zero_claims_rows =
     [claim_row ''99213'' ''10'' ''1'' ''2'', claim_row ''99213'' ''12'' ''1'' ''2'',
      claim_row ''99213'' ''13'' ''1'' ''2'', claim_row ''99213'' ''14'' ''1'' ''2'',
      claim_row ''99213'' ''15'' ''1'' ''2'', claim_row ''99213'' ''100'' ''1'' ''0'']"

definition zero_claims_record :: stream_row where
  "zero_claims_record =
     \<lparr>idx = 5, TOTAL_PAID = Fin 100, TOTAL_UNIQUE_BENEFICIARIES = Fin 1,
      TOTAL_CLAIMS = Fin 0, PAID_PER_BENEF = Fin 100, PAID_PER_CLAIM = NaN\<rparr>"

text \<open>
  The rows of \<open>zero_benef_rows\<close> as the output file of an earlier run holds them: each
  with a field OUTLIER_REASONS.
\<close>

definition rerun_rows :: "row list" where
  "rerun_rows = map (\<lambda>r. r @ [(''OUTLIER_REASONS'', ''high_total_paid'')]) zero_benef_rows"

text \<open>Five records with the same values.\<close>

definition same_rows :: "row list" where
  "same_rows = replicate 5 (claim_row ''99213'' ''10'' ''1'' ''2'')"

text \<open>Six records with the same payment, the last with a hundred beneficiaries.\<close>

definition benef_outlier_rows :: "row list" where
  "benef_outlier_rows =
     [claim_row ''99213'' ''10'' ''1'' ''2'', claim_row ''99213'' ''10'' ''1'' ''2'',
      claim_row ''99213'' ''10'' ''1'' ''2'', claim_row ''99213'' ''10'' ''1'' ''2'',
      claim_row ''99213'' ''10'' ''1'' ''2'', claim_row ''99213'' ''10'' ''100'' ''2'']"

definition paid_frame :: "frame_row list" where
  "paid_frame = map (\<lambda>(i, r). coerce_row to_numeric_digits i r) (enumerate 0 paid_rows)"

text \<open>Four unremarkable records of another procedure code, then the six of \<open>paid_rows\<close>.\<close>

definition two_group_rows :: "row list" where
  "two_group_rows =
     [claim_row ''A0425'' ''7'' ''1'' ''1'', claim_row ''A0425'' ''7'' ''1'' ''1'',
      claim_row ''A0425'' ''7'' ''1'' ''1'', claim_row ''A0425'' ''7'' ''1'' ''1''] @ paid_rows"

section \<open>The derived ratios never raise\<close>

lemma safe_ratio_eq: "safe_ratio n d = Inr (ratio n d)"
  by (simp add: safe_ratio_def truediv_def ratio_def)

lemma derive_row_eq: "derive_row r = Inr (with_ratios r)"
  by (simp add: derive_row_def with_ratios_def safe_ratio_eq bind_err_def)

lemma map_err_Inr: "(\<And>x. x \<in> set xs \<Longrightarrow> f x = Inr (g x)) \<Longrightarrow> map_err f xs = Inr (map g xs)"
  by (induction xs) (simp_all add: bind_err_def)

lemma map_err_derive: "map_err derive_row df = Inr (map with_ratios df)"
  by (rule map_err_Inr) (rule derive_row_eq)

section \<open>The frames\<close>

lemma coerce_ok:
  "has_numeric_cols rows \<Longrightarrow>
   coerce p rows = Inr (map (\<lambda>(i, r). coerce_row p i r) (enumerate 0 rows))"
  by (simp add: coerce_def has_numeric_cols_def numeric_cols_def)

lemma coerce_err:
  "\<not> has_numeric_cols rows \<Longrightarrow> \<exists>c. coerce p rows = Inl (KeyError c)"
  by (auto simp add: coerce_def has_numeric_cols_def numeric_cols_def)

lemma frames_eq:
  "has_numeric_cols rows \<or> length rows < 4 \<Longrightarrow>
   frames p rows =
     Inr (if length rows < 4 \<or> length (frame_of p rows) < 4 \<or>
             length (dropna_ratios (frame_of p rows)) < 4
          then None else Some (frame_of p rows, dropna_ratios (frame_of p rows)))"
  by (auto simp add: frames_def coerce_ok map_err_derive bind_err_def Let_def frame_of_def)

lemma frames_SomeD:
  assumes "frames p rows = Inr (Some (df, dfc))"
  shows "df = frame_of p rows" and "dfc = dropna_ratios df" and "4 \<le> length dfc"
    and "4 \<le> length rows" and "has_numeric_cols rows"
proof -
  from assms have len: "\<not> length rows < 4"
    by (auto simp add: frames_def)
  show cols: "has_numeric_cols rows"
  proof (rule ccontr)
    assume "\<not> has_numeric_cols rows"
    then obtain c where "coerce p rows = Inl (KeyError c)" using coerce_err by blast
    with assms len show False by (simp add: frames_def bind_err_def)
  qed
  from assms frames_eq[of rows p] cols
  show "df = frame_of p rows" and "dfc = dropna_ratios df" and "4 \<le> length dfc"
    by (auto split: if_splits)
  from len show "4 \<le> length rows" by simp
qed

lemma in_frame_of:
  "r \<in> set (frame_of p rows) \<Longrightarrow>
   idx r < length rows \<and>
   TOTAL_PAID r = cell p (rows ! idx r) ''TOTAL_PAID'' \<and>
   TOTAL_UNIQUE_BENEFICIARIES r = cell p (rows ! idx r) ''TOTAL_UNIQUE_BENEFICIARIES'' \<and>
   TOTAL_CLAIMS r = cell p (rows ! idx r) ''TOTAL_CLAIMS'' \<and>
   PAID_PER_BENEF r = ratio (TOTAL_PAID r) (TOTAL_UNIQUE_BENEFICIARIES r) \<and>
   PAID_PER_CLAIM r = ratio (TOTAL_PAID r) (TOTAL_CLAIMS r) \<and>
   notna (TOTAL_PAID r) \<and> notna (TOTAL_UNIQUE_BENEFICIARIES r) \<and> notna (TOTAL_CLAIMS r)"
  by (auto simp add: frame_of_def dropna_numeric_def with_ratios_def coerce_row_def
      in_set_enumerate_eq)

lemma length_filter_enumerate:
  "(\<And>i r. P (f i r) = Q r) \<Longrightarrow>
   length (filter P (map (\<lambda>(i, r). f i r) (enumerate n xs))) = length (filter Q xs)"
  by (induction xs arbitrary: n) simp_all

lemma length_frame_of:
  "length (frame_of p rows) = length (filter (numeric_valid p) rows)"
  unfolding frame_of_def dropna_numeric_def length_map
  by (rule length_filter_enumerate) (simp add: coerce_row_def numeric_valid_def)

lemma length_clean_frame_of:
  "length (dropna_ratios (frame_of p rows)) = length (filter (fully_valid p) rows)"
proof -
  have "length (dropna_ratios (frame_of p rows)) =
        length (filter (\<lambda>r. (notna (TOTAL_PAID r) \<and> notna (TOTAL_UNIQUE_BENEFICIARIES r) \<and>
                 notna (TOTAL_CLAIMS r)) \<and> notna (PAID_PER_BENEF (with_ratios r)) \<and>
                 notna (PAID_PER_CLAIM (with_ratios r)))
           (map (\<lambda>(i, r). coerce_row p i r) (enumerate 0 rows)))"
    by (simp add: frame_of_def dropna_ratios_def dropna_numeric_def filter_map o_def conj_commute)
  also have "\<dots> = length (filter (fully_valid p) rows)"
    by (rule length_filter_enumerate)
       (simp add: coerce_row_def fully_valid_def numeric_valid_def with_ratios_def)
  finally show ?thesis .
qed

section \<open>The flags of a record\<close>

lemma mem_row_flags:
  "''high_total_paid'' \<in> set (row_flags b r) \<longleftrightarrow>
     notna (TOTAL_PAID r) \<and> fl_gt (TOTAL_PAID r) (high_total_paid b)"
  "''high_paid_per_benef'' \<in> set (row_flags b r) \<longleftrightarrow>
     notna (PAID_PER_BENEF r) \<and> fl_gt (PAID_PER_BENEF r) (high_paid_per_benef b)"
  "''high_paid_per_claim'' \<in> set (row_flags b r) \<longleftrightarrow>
     notna (PAID_PER_CLAIM r) \<and> fl_gt (PAID_PER_CLAIM r) (high_paid_per_claim b)"
  "''high_unique_beneficiaries'' \<in> set (row_flags b r) \<longleftrightarrow>
     notna (TOTAL_UNIQUE_BENEFICIARIES r) \<and>
     fl_gt (TOTAL_UNIQUE_BENEFICIARIES r) (high_unique_benef b)"
  by (simp_all add: row_flags_def)


section \<open>The loop over the frame\<close>

lemma flag_loop_fst:
  "fst (flag_loop b g df (fl, h)) =
     fl @ map (\<lambda>r. g ! idx r) (filter (\<lambda>r. row_flags b r \<noteq> []) df)"
  by (induction df arbitrary: fl h) (simp_all add: Let_def)

lemma flag_loop_other_aux:
  "(\<And>r. r \<in> set df \<Longrightarrow> row_flags b r \<noteq> [] \<Longrightarrow> g ! idx r \<noteq> a) \<Longrightarrow>
   snd (flag_loop b g df (fl, h)) a = h a"
proof (induction df arbitrary: fl h)
  case Nil
  then show ?case by simp
next
  case (Cons r rs)
  have rest: "snd (flag_loop b g rs (fl', h')) a = h' a" for fl' h'
    by (rule Cons.IH) (simp add: Cons.prems)
  show ?case
  proof (cases "row_flags b r \<noteq> []")
    case True
    then have "g ! idx r \<noteq> a" by (simp add: Cons.prems)
    with True show ?thesis by (simp add: Let_def rest)
  next
    case False
    then show ?thesis by (simp add: rest)
  qed
qed

lemma flag_loop_other:
  "a \<notin> (\<lambda>r. g ! idx r) ` {r \<in> set df. row_flags b r \<noteq> []} \<Longrightarrow>
   snd (flag_loop b g df (fl, h)) a = h a"
  by (rule flag_loop_other_aux) auto

lemma flag_loop_flagged:
  "a \<in> (\<lambda>r. g ! idx r) ` {r \<in> set df. row_flags b r \<noteq> []} \<Longrightarrow>
   \<exists>r\<in>set df. row_flags b r \<noteq> [] \<and> g ! idx r = a \<and>
     snd (flag_loop b g df (fl, h)) a =
       AList.update ''OUTLIER_REASONS'' (join '','' (row_flags b r)) (h a)"
proof (induction df arbitrary: fl h)
  case Nil
  then show ?case by simp
next
  case (Cons r rs)
  let ?S = "(\<lambda>r. g ! idx r) ` {r \<in> set rs. row_flags b r \<noteq> []}"
  show ?case
  proof (cases "a \<in> ?S")
    case True
    show ?thesis
    proof (cases "row_flags b r \<noteq> []")
      case flagged: True
      let ?h = "h(g ! idx r :=
        AList.update ''OUTLIER_REASONS'' (join '','' (row_flags b r)) (h (g ! idx r)))"
      from Cons.IH[OF True, of "fl @ [g ! idx r]" ?h]
      obtain r' where r': "r' \<in> set rs" "row_flags b r' \<noteq> []" "g ! idx r' = a"
        "snd (flag_loop b g rs (fl @ [g ! idx r], ?h)) a =
           AList.update ''OUTLIER_REASONS'' (join '','' (row_flags b r')) (?h a)"
        by blast
      have "AList.update ''OUTLIER_REASONS'' (join '','' (row_flags b r')) (?h a) =
            AList.update ''OUTLIER_REASONS'' (join '','' (row_flags b r')) (h a)"
        by simp
      with r' flagged show ?thesis by (auto simp add: Let_def)
    next
      case False
      with Cons.IH[OF True, of fl h] show ?thesis by (auto simp add: Let_def)
    qed
  next
    case False
    with Cons.prems have *: "row_flags b r \<noteq> []" "g ! idx r = a" by auto
    from False have "snd (flag_loop b g rs (fl', h')) a = h' a" for fl' h'
      by (rule flag_loop_other)
    with * show ?thesis by (auto simp add: Let_def)
  qed
qed

section \<open>The detector\<close>

lemma detect_outliers_eq:
  assumes "length g < 4 \<or> has_numeric_cols (map h g)"
  shows "detect_outliers p h g =
     Inr (if length g < 4 \<or> length (filter (numeric_valid p) (map h g)) < 4 \<or>
             length (filter (fully_valid p) (map h g)) < 4
          then ([], h)
          else flag_loop (compute_bounds (dropna_ratios (frame_of p (map h g)))) g
                 (frame_of p (map h g)) ([], h))"
  using assms frames_eq[of "map h g" p]
  by (auto simp add: detect_outliers_def bind_err_def length_frame_of length_clean_frame_of)

lemma map_idx_enumerate:
  "map idx (filter N (map (\<lambda>(i, r). coerce_row p i r) (enumerate n xs))) =
   filter (\<lambda>i. N (coerce_row p i (xs ! (i - n)))) [n..<n + length xs]"
proof (induction xs arbitrary: n)
  case Nil
  then show ?case by simp
next
  case (Cons x xs)
  have nth: "(x # xs) ! (i - n) = xs ! (i - Suc n)" if "n < i" for i
    using that Suc_diff_Suc[of n i] by (metis nth_Cons_Suc)
  have "filter (\<lambda>i. N (coerce_row p i ((x # xs) ! (i - n)))) [Suc n..<Suc n + length xs] =
        filter (\<lambda>i. N (coerce_row p i (xs ! (i - Suc n)))) [Suc n..<Suc n + length xs]"
  proof (rule filter_cong[OF refl])
    fix i assume "i \<in> set [Suc n..<Suc n + length xs]"
    then have "n < i" by auto
    then show "N (coerce_row p i ((x # xs) ! (i - n))) = N (coerce_row p i (xs ! (i - Suc n)))"
      by (simp only: nth)
  qed
  moreover have "[n..<n + length (x # xs)] = n # [Suc n..<Suc n + length xs]"
    by (simp add: upt_conv_Cons del: upt_Suc)
  moreover have "idx (coerce_row p n x) = n"
    by (simp add: coerce_row_def)
  ultimately show ?case
    using Cons.IH[of "Suc n"] by (simp del: upt_Suc)
qed

lemma map_idx_frame_of:
  "map idx (frame_of p rows) = filter (\<lambda>i. numeric_valid p (rows ! i)) [0..<length rows]"
proof -
  have "map idx (frame_of p rows) =
        map idx (dropna_numeric (map (\<lambda>(i, r). coerce_row p i r) (enumerate 0 rows)))"
    by (simp add: frame_of_def with_ratios_def o_def)
  also have "\<dots> = filter (\<lambda>i. numeric_valid p (rows ! i)) [0..<length rows]"
    unfolding dropna_numeric_def map_idx_enumerate
    by (simp add: coerce_row_def numeric_valid_def)
  finally show ?thesis .
qed

lemma same_address_same_flags:
  assumes "r \<in> set (frame_of p (map h g))" and "r' \<in> set (frame_of p (map h g))"
    and "g ! idx r = g ! idx r'"
  shows "row_flags b r = row_flags b r'"
proof -
  from in_frame_of[OF assms(1)] in_frame_of[OF assms(2)] assms(3)
  have "TOTAL_PAID r = TOTAL_PAID r'"
    "TOTAL_UNIQUE_BENEFICIARIES r = TOTAL_UNIQUE_BENEFICIARIES r'"
    "TOTAL_CLAIMS r = TOTAL_CLAIMS r'"
    by simp_all
  moreover from in_frame_of[OF assms(1)] in_frame_of[OF assms(2)]
  have "PAID_PER_BENEF r = ratio (TOTAL_PAID r) (TOTAL_UNIQUE_BENEFICIARIES r)"
    "PAID_PER_CLAIM r = ratio (TOTAL_PAID r) (TOTAL_CLAIMS r)"
    "PAID_PER_BENEF r' = ratio (TOTAL_PAID r') (TOTAL_UNIQUE_BENEFICIARIES r')"
    "PAID_PER_CLAIM r' = ratio (TOTAL_PAID r') (TOTAL_CLAIMS r')"
    by blast+
  ultimately show ?thesis by (simp add: row_flags_def)
qed

lemma detect_outliers_Some:
  "frames p (map h g) = Inr (Some (df, dfc)) \<Longrightarrow>
   detect_outliers p h g = Inr (flag_loop (compute_bounds dfc) g df ([], h))"
  by (simp add: detect_outliers_def bind_err_def)

lemma detect_outliers_None:
  "frames p (map h g) = Inr None \<Longrightarrow> detect_outliers p h g = Inr ([], h)"
  by (simp add: detect_outliers_def bind_err_def)

lemma detect_outliers_cases:
  assumes "detect_outliers p h g = Inr (out, h')"
  obtains (skipped) "frames p (map h g) = Inr None" "out = []" "h' = h"
  | (flagging) df dfc where "frames p (map h g) = Inr (Some (df, dfc))"
      "flag_loop (compute_bounds dfc) g df ([], h) = (out, h')"
  using assms
  by (auto simp add: detect_outliers_def bind_err_def split: sum.splits option.splits)

lemma flagging_out:
  assumes "flag_loop b g df ([], h) = (out, h')"
  shows "out = map (\<lambda>r. g ! idx r) (filter (\<lambda>r. row_flags b r \<noteq> []) df)"
  using flag_loop_fst[of b g df "[]" h] assms by simp

lemma flagging_store:
  assumes "flag_loop b g df ([], h) = (out, h')" and "df = frame_of p (map h g)"
    and "r \<in> set df" and "row_flags b r \<noteq> []"
  shows "h' (g ! idx r) =
    AList.update ''OUTLIER_REASONS'' (join '','' (row_flags b r)) (h (g ! idx r))"
proof -
  from assms(3,4) have "g ! idx r \<in> (\<lambda>r. g ! idx r) ` {r \<in> set df. row_flags b r \<noteq> []}"
    by blast
  from flag_loop_flagged[OF this, of "[]" h] assms(1)
  obtain r' where r': "r' \<in> set df" "g ! idx r' = g ! idx r"
    "h' (g ! idx r) = AList.update ''OUTLIER_REASONS'' (join '','' (row_flags b r')) (h (g ! idx r))"
    by auto
  from same_address_same_flags[of r' p h g r b] r'(1,2) assms(2,3)
  have "row_flags b r' = row_flags b r" by simp
  with r'(3) show ?thesis by simp
qed

lemma flagging_unflagged:
  assumes "flag_loop b g df ([], h) = (out, h')" and "a \<notin> set out"
  shows "h' a = h a"
proof -
  from flagging_out[OF assms(1)] assms(2)
  have "a \<notin> (\<lambda>r. g ! idx r) ` {r \<in> set df. row_flags b r \<noteq> []}" by auto
  from flag_loop_other[OF this, of "[]" h] assms(1) show ?thesis by simp
qed

lemma row_flags_order: "row_flags b r = filter (\<lambda>n. n \<in> set (row_flags b r)) flag_order"
  by (simp add: row_flags_def flag_order_def)

lemma emitted_InrD:
  "emitted res = Inr xs \<Longrightarrow> \<exists>out h'. res = Inr (out, h') \<and> map h' out = xs"
  by (auto simp add: emitted_def split: sum.splits)

lemma get_upper_bound_fence: "4 \<le> length series \<Longrightarrow> get_upper_bound series = iqr_fence series"
  by (simp add: get_upper_bound_def iqr_fence_def Let_def)

lemma returned_InrD: "returned res = Inr xs \<Longrightarrow> res = Inr (out, h') \<Longrightarrow> out = xs"
  by (simp add: returned_def)

lemma emitted_Inr_map: "emitted res = Inr xs \<Longrightarrow> res = Inr (out, h') \<Longrightarrow> map h' out = xs"
  by (simp add: emitted_def)

lemma notna_cell_has_key: "notna (cell p r col) \<Longrightarrow> map_of r col \<noteq> None"
  by (auto simp add: cell_def notna_def split: option.splits)

lemma numeric_valid_has_cols:
  assumes "r \<in> set rows" and "numeric_valid p r"
  shows "has_numeric_cols rows"
proof -
  from assms(2) have "map_of r ''TOTAL_PAID'' \<noteq> None"
    "map_of r ''TOTAL_UNIQUE_BENEFICIARIES'' \<noteq> None" "map_of r ''TOTAL_CLAIMS'' \<noteq> None"
    unfolding numeric_valid_def using notna_cell_has_key[of p r] by blast+
  with assms(1) show ?thesis
    unfolding has_numeric_cols_def numeric_cols_def has_column_def list_ex_iff
    by auto
qed

lemma frame_of_all_valid:
  assumes "\<forall>r\<in>set rows. fully_valid p r"
  shows "frame_of p rows = map (\<lambda>(i, r). with_ratios (coerce_row p i r)) (enumerate 0 rows)"
    and "dropna_ratios (frame_of p rows) = frame_of p rows"
proof -
  have "dropna_numeric (map (\<lambda>(i, r). coerce_row p i r) (enumerate 0 rows)) =
        map (\<lambda>(i, r). coerce_row p i r) (enumerate 0 rows)"
    unfolding dropna_numeric_def
    by (rule filter_True)
       (use assms in \<open>auto simp add: fully_valid_def numeric_valid_def coerce_row_def
          in_set_enumerate_eq\<close>)
  then show eq: "frame_of p rows =
      map (\<lambda>(i, r). with_ratios (coerce_row p i r)) (enumerate 0 rows)"
    by (simp add: frame_of_def split_def)
  show "dropna_ratios (frame_of p rows) = frame_of p rows"
    unfolding dropna_ratios_def eq
    by (rule filter_True)
       (use assms in \<open>auto simp add: fully_valid_def with_ratios_def coerce_row_def
          in_set_enumerate_eq\<close>)
qed

lemma map_enumerate_snd:
  "map (\<lambda>(i, r). f r) (enumerate n xs) = map f xs"
  by (induction xs arbitrary: n) simp_all

lemma frame_of_all_valid_columns:
  assumes "\<forall>r\<in>set rows. fully_valid p r"
  shows "map TOTAL_PAID (frame_of p rows) = map (\<lambda>r. cell p r ''TOTAL_PAID'') rows"
    and "map idx (frame_of p rows) = [0..<length rows]"
    and "length (frame_of p rows) = length rows"
proof -
  have "map TOTAL_PAID (frame_of p rows) =
        map (\<lambda>(i, r). cell p r ''TOTAL_PAID'') (enumerate 0 rows)"
    by (simp add: frame_of_all_valid(1)[OF assms] with_ratios_def coerce_row_def split_def)
  then show "map TOTAL_PAID (frame_of p rows) = map (\<lambda>r. cell p r ''TOTAL_PAID'') rows"
    by (simp add: map_enumerate_snd)
  have "idx \<circ> (\<lambda>(i, r). with_ratios (coerce_row p i r)) = fst"
    by (auto simp add: fun_eq_iff with_ratios_def coerce_row_def)
  then have "map idx (frame_of p rows) = map fst (enumerate 0 rows)"
    by (simp add: frame_of_all_valid(1)[OF assms])
  then show "map idx (frame_of p rows) = [0..<length rows]"
    by simp
  show "length (frame_of p rows) = length rows"
    by (simp add: frame_of_all_valid(1)[OF assms])
qed

lemma frames_all_valid:
  assumes "\<forall>r\<in>set rows. fully_valid p r" and "4 \<le> length rows"
  shows "frames p rows = Inr (Some (frame_of p rows, frame_of p rows))"
proof -
  from assms(2) obtain r where "r \<in> set rows" by (cases rows) auto
  with assms(1) have "has_numeric_cols rows"
    using numeric_valid_has_cols[of r rows p] by (simp add: fully_valid_def)
  with frames_eq[of rows p] assms(2) frame_of_all_valid(2)[OF assms(1)]
    frame_of_all_valid_columns(3)[OF assms(1)]
  show ?thesis by simp
qed

lemma list6: "length xs = 6 \<Longrightarrow> xs = [xs ! 0, xs ! 1, xs ! 2, xs ! 3, xs ! 4, xs ! 5]"
  by (rule nth_equalityI) (auto simp add: nth_Cons' less_Suc_eq numeral_eq_Suc)

lemma paid_quantiles:
  "quantile [Fin 10, Fin 12, Fin 13, Fin 14, Fin 15, Fin 100] (1 / 4) = Fin (49 / 4)"
  "quantile [Fin 10, Fin 12, Fin 13, Fin 14, Fin 15, Fin 100] (3 / 4) = Fin (59 / 4)"
  "get_upper_bound [Fin 10, Fin 12, Fin 13, Fin 14, Fin 15, Fin 100] = Fin (37 / 2)"
  by code_simp+

section \<open>The fence of a constant series\<close>

lemma lerp_same: "lerp (Fin x) (Fin x) t = Fin x"
  by (simp add: lerp_def fl_sub_def)

lemma lerp_same_inf: "lerp PInf PInf t = NaN" "lerp NInf NInf t = NaN"
  by (simp_all add: lerp_def fl_sub_def)

lemma constant_series: "\<forall>x\<in>set series. x = v \<Longrightarrow> series = replicate (length series) v"
  by (induction series) simp_all

lemma quantile_replicate:
  assumes "v \<noteq> NaN" and "0 < n" and "0 \<le> q" and "q \<le> 1"
  shows "\<exists>t. quantile (replicate n v) q = lerp v v t"
proof -
  have vs: "sort_key fl_key (filter notna (replicate n v)) = replicate n v"
    using assms(1) by (simp add: notna_def sort_key_id_if_sorted sorted_replicate)
  let ?pos = "of_nat (n - 1) * q :: rat"
  have "0 \<le> ?pos" using assms(3) by simp
  moreover have "?pos \<le> of_nat (n - 1)"
    using assms(3,4) by (simp add: mult_left_le)
  then have "\<lfloor>?pos\<rfloor> \<le> int (n - 1)" by (simp add: floor_le_iff)
  ultimately have lo: "nat \<lfloor>?pos\<rfloor> < n" using assms(2) by linarith
  have hi: "min (nat \<lfloor>?pos\<rfloor> + 1) (n - 1) < n" using assms(2) by simp
  show ?thesis
    using assms(2) lo hi by (auto simp add: quantile_def vs Let_def)
qed

lemma fence_finite:
  assumes "\<forall>x\<in>set series. x = Fin c" and "4 \<le> length series"
  shows "get_upper_bound series = Fin c"
proof -
  define n where "n = length series"
  from constant_series[OF assms(1)] have s: "series = replicate n (Fin c)"
    by (simp add: n_def)
  from assms(2) have n: "0 < n"
    unfolding n_def by linarith
  from quantile_replicate[OF _ n, of "Fin c" "1 / 4"] quantile_replicate[OF _ n, of "Fin c" "3 / 4"]
  have "quantile series (1 / 4) = Fin c" "quantile series (3 / 4) = Fin c"
    by (auto simp add: s lerp_same)
  with assms(2) show ?thesis
    by (simp add: get_upper_bound_def fl_sub_def)
qed

lemma fence_not_exceeded:
  assumes "\<forall>x\<in>set series. x = v"
  shows "\<not> fl_gt v (get_upper_bound series)"
proof (cases "length series < 4")
  case True
  then show ?thesis by (cases v) (simp_all add: get_upper_bound_def)
next
  case False
  show ?thesis
  proof (cases v)
    case NaN
    then show ?thesis by simp
  next
    case (Fin c)
    with fence_finite[of series c] assms False show ?thesis by simp
  next
    case PInf
    define n where "n = length series"
    from constant_series[OF assms] PInf have s: "series = replicate n PInf"
      by (simp add: n_def)
    from False have n: "0 < n"
      unfolding n_def by linarith
    from quantile_replicate[OF _ n, of PInf "3 / 4"]
    have "quantile series (3 / 4) = NaN" by (auto simp add: s lerp_same_inf)
    with False PInf show ?thesis by (simp add: get_upper_bound_def)
  next
    case NInf
    then show ?thesis by (cases "get_upper_bound series") simp_all
  qed
qed

lemma flag_loop_none:
  "\<forall>r\<in>set df. row_flags b r = [] \<Longrightarrow> flag_loop b g df acc = acc"
  by (induction df arbitrary: acc) (auto simp add: Let_def split: prod.splits)

lemma in_frame_of_metrics:
  assumes "r \<in> set (frame_of p rows)"
  shows "idx r < length rows" and
    "(TOTAL_PAID r, PAID_PER_BENEF r, PAID_PER_CLAIM r, TOTAL_UNIQUE_BENEFICIARIES r) =
     metrics p (rows ! idx r)"
  using in_frame_of[OF assms] by (simp_all add: metrics_def)

lemma shared_metrics_columns:
  assumes "frames p (map h g) = Inr (Some (df, dfc))"
    and "\<forall>a\<in>set g. metrics p (h a) = (m1, m2, m3, m4)"
  shows "\<forall>r\<in>set df. TOTAL_PAID r = m1 \<and> PAID_PER_BENEF r = m2 \<and> PAID_PER_CLAIM r = m3 \<and>
           TOTAL_UNIQUE_BENEFICIARIES r = m4"
    and "set dfc \<subseteq> set df"
proof -
  from frames_SomeD(1,2)[OF assms(1)]
  have df: "df = frame_of p (map h g)" and dfc: "dfc = dropna_ratios df" .
  show "set dfc \<subseteq> set df" by (auto simp add: dfc dropna_ratios_def)
  show "\<forall>r\<in>set df. TOTAL_PAID r = m1 \<and> PAID_PER_BENEF r = m2 \<and> PAID_PER_CLAIM r = m3 \<and>
           TOTAL_UNIQUE_BENEFICIARIES r = m4"
  proof
    fix r assume "r \<in> set df"
    then have r: "r \<in> set (frame_of p (map h g))" by (simp add: df)
    from in_frame_of_metrics[OF r] have "idx r < length g"
      and "(TOTAL_PAID r, PAID_PER_BENEF r, PAID_PER_CLAIM r, TOTAL_UNIQUE_BENEFICIARIES r) =
           metrics p (h (g ! idx r))"
      by simp_all
    with assms(2) show "TOTAL_PAID r = m1 \<and> PAID_PER_BENEF r = m2 \<and> PAID_PER_CLAIM r = m3 \<and>
           TOTAL_UNIQUE_BENEFICIARIES r = m4"
      by (metis nth_mem prod.inject)
  qed
qed

section \<open>The chunked detector\<close>

lemma detect_outliers_chunked_eq:
  "detect_outliers_chunked grp =
     (if length grp < 4 then []
      else filter (\<lambda>r. fl_gt (TOTAL_PAID r) (iqr_fence (map TOTAL_PAID grp))) grp)"
  by (simp add: detect_outliers_chunked_def iqr_fence_def Let_def)

lemma map_filter_zip:
  "map k (filter (\<lambda>r. P (f r)) xs) =
   map snd (filter (\<lambda>pr. P (fst pr)) (zip (map f xs) (map k xs)))"
  by (induction xs) simp_all

section \<open>The driver\<close>

lemma bind_err_simps [simp]:
  "bind_err (Inl e) f = Inl e" "bind_err (Inr x) f = f x"
  by (simp_all add: bind_err_def)

lemma row_key_update:
  "row_key (AList.update ''OUTLIER_REASONS'' v r) = row_key r"
  by (simp add: row_key_def update_conv' split: option.splits)

lemma flag_loop_keys:
  "row_key (snd (flag_loop b g df (fl, h)) a) = row_key (h a)"
proof (cases "a \<in> (\<lambda>r. g ! idx r) ` {r \<in> set df. row_flags b r \<noteq> []}")
  case True
  from flag_loop_flagged[OF True, of fl h] show ?thesis
    by (auto simp add: row_key_update)
next
  case False
  from flag_loop_other[OF False, of fl h] show ?thesis by simp
qed

lemma detect_outliers_keys:
  assumes "detect_outliers p h g = Inr (out, h')"
  shows "row_key (h' a) = row_key (h a)"
  using assms
proof (cases rule: detect_outliers_cases)
  case skipped
  then show ?thesis by simp
next
  case (flagging df dfc)
  from flag_loop_keys[of "compute_bounds dfc" g df "[]" h a] flagging(2)
  show ?thesis by simp
qed

lemma process_group_eq:
  "process_group p st =
     bind_err (detect_outliers p (store st) (current_group_rows st)) (\<lambda>(outliers, h').
       Inr (st\<lparr>outlier_rows := outlier_rows st @ outliers,
               total_outliers := total_outliers st + length outliers,
               store := h'\<rparr>))"
  by (auto simp add: process_group_def bind_err_def split: sum.splits)

lemma process_group_InrD:
  assumes "process_group p st = Inr st'"
  shows "row_key (store st' a) = row_key (store st a)"
    and "current_group_rows st' = current_group_rows st"
    and "current_key st' = current_key st"
    and "total_rows_processed st' = total_rows_processed st"
proof -
  from assms obtain out h' where d: "detect_outliers p (store st) (current_group_rows st) = Inr (out, h')"
    and st': "st' = st\<lparr>outlier_rows := outlier_rows st @ out,
               total_outliers := total_outliers st + length out, store := h'\<rparr>"
    by (auto simp add: process_group_eq bind_err_def split: sum.splits)
  from detect_outliers_keys[OF d] show "row_key (store st' a) = row_key (store st a)"
    by (simp add: st')
  show "current_group_rows st' = current_group_rows st" "current_key st' = current_key st"
    "total_rows_processed st' = total_rows_processed st"
    by (simp_all add: st')
qed

lemma process_group_counted:
  "process_group p (st\<lparr>total_rows_processed := n\<rparr>) =
   bind_err (process_group p st) (\<lambda>st'. Inr (st'\<lparr>total_rows_processed := n\<rparr>))"
  by (auto simp add: process_group_eq bind_err_def split: sum.splits)

lemma main_step_same_key:
  assumes "row_key (store st a) = Inr k" and "current_key st = Some k"
  shows "main_step p st a =
    Inr (st\<lparr>total_rows_processed := total_rows_processed st + 1,
            current_group_rows := current_group_rows st @ [a]\<rparr>)"
  using assms by (simp add: main_step_def Let_def)

lemma main_loop_same_key:
  assumes "\<forall>a\<in>set g. row_key (store st a) = Inr k" and "current_key st = Some k"
  shows "main_loop p st g =
    Inr (st\<lparr>total_rows_processed := total_rows_processed st + length g,
            current_group_rows := current_group_rows st @ g\<rparr>)"
  using assms
proof (induction g arbitrary: st)
  case Nil
  then show ?case by simp
next
  case (Cons a g)
  let ?st = "st\<lparr>total_rows_processed := total_rows_processed st + 1,
            current_group_rows := current_group_rows st @ [a]\<rparr>"
  from Cons.prems have step: "main_step p st a = Inr ?st"
    by (simp add: main_step_same_key)
  from Cons.prems have "\<forall>a\<in>set g. row_key (store ?st a) = Inr k" "current_key ?st = Some k"
    by simp_all
  from Cons.IH[OF this] step show ?case by simp
qed

lemma main_step_new_key:
  assumes "row_key (store st a) = Inr k" and "current_key st \<noteq> Some k"
  shows "main_step p st a =
    (if current_group_rows st \<noteq> []
     then bind_err (process_group p st) (\<lambda>st2.
            Inr (st2\<lparr>total_rows_processed := total_rows_processed st + 1,
                     current_group_rows := [a], current_key := Some k\<rparr>))
     else Inr (st\<lparr>total_rows_processed := total_rows_processed st + 1,
                  current_group_rows := [a], current_key := Some k\<rparr>))"
proof (cases "current_group_rows st \<noteq> []")
  case True
  show ?thesis
  proof (cases "process_group p st")
    case (Inl e)
    with assms True show ?thesis
      by (auto simp add: main_step_def Let_def process_group_counted)
  next
    case (Inr st2)
    with assms True process_group_InrD(2)[OF Inr] show ?thesis
      by (auto simp add: main_step_def Let_def process_group_counted)
  qed
next
  case False
  with assms show ?thesis
    by (auto simp add: main_step_def Let_def)
qed

lemma main_step_InrD:
  assumes "main_step p st a = Inr st'"
  shows "\<forall>b. row_key (store st' b) = row_key (store st b)"
    and "current_group_rows st' \<noteq> []"
    and "\<exists>k. row_key (store st a) = Inr k \<and> current_key st' = Some k"
proof -
  from assms obtain k where k: "row_key (store st a) = Inr k"
    by (cases "row_key (store st a)") (auto simp add: main_step_def Let_def)
  show "\<forall>b. row_key (store st' b) = row_key (store st b)"
    and "current_group_rows st' \<noteq> []"
    and "\<exists>k. row_key (store st a) = Inr k \<and> current_key st' = Some k"
  proof (atomize (full), cases "current_key st = Some k")
    case True
    from main_step_same_key[OF k True, of p] assms k True
    show "(\<forall>b. row_key (store st' b) = row_key (store st b)) \<and>
      current_group_rows st' \<noteq> [] \<and>
      (\<exists>k. row_key (store st a) = Inr k \<and> current_key st' = Some k)"
      by auto
  next
    case False
    show "(\<forall>b. row_key (store st' b) = row_key (store st b)) \<and>
      current_group_rows st' \<noteq> [] \<and>
      (\<exists>k. row_key (store st a) = Inr k \<and> current_key st' = Some k)"
    proof (cases "current_group_rows st \<noteq> []")
      case True
      with main_step_new_key[OF k False, of p] assms obtain st2 where
        pg: "process_group p st = Inr st2" and
        st': "st' = st2\<lparr>total_rows_processed := total_rows_processed st + 1,
                     current_group_rows := [a], current_key := Some k\<rparr>"
        by (cases "process_group p st") auto
      from process_group_InrD(1)[OF pg] k show ?thesis by (simp add: st')
    next
      case nogroup: False
      with main_step_new_key[OF k False, of p] assms k show ?thesis by auto
    qed
  qed
qed

lemma main_loop_InrD:
  assumes "main_loop p st xs = Inr st'"
  shows "\<forall>b. row_key (store st' b) = row_key (store st b)"
    and "xs \<noteq> [] \<longrightarrow> current_group_rows st' \<noteq> [] \<and>
         (\<exists>k. row_key (store st (last xs)) = Inr k \<and> current_key st' = Some k)"
  using assms
proof (induction xs arbitrary: st)
  case Nil
  { case 1 then show ?case by simp }
  { case 2 then show ?case by simp }
next
  case (Cons a xs)
  { case 1
    then obtain st1 where s: "main_step p st a = Inr st1" and l: "main_loop p st1 xs = Inr st'"
      by (cases "main_step p st a") auto
    from Cons.IH(1)[OF l] main_step_InrD(1)[OF s] show ?case by simp }
  { case 2
    then obtain st1 where s: "main_step p st a = Inr st1" and l: "main_loop p st1 xs = Inr st'"
      by (cases "main_step p st a") auto
    show ?case
    proof (cases "xs = []")
      case True
      with l have "st' = st1" by simp
      with main_step_InrD(2,3)[OF s] True show ?thesis by simp
    next
      case False
      with Cons.IH(2)[OF l] main_step_InrD(1)[OF s] show ?thesis by simp
    qed }
qed

lemma main_loop_append:
  "main_loop p st (xs @ ys) = bind_err (main_loop p st xs) (\<lambda>st'. main_loop p st' ys)"
proof (induction xs arbitrary: st)
  case Nil
  then show ?case by simp
next
  case (Cons a xs)
  then show ?case by (cases "main_step p st a") simp_all
qed

lemma flagging_not_returned:
  assumes "flag_loop b g df ([], h) = (out, h')" and "df = frame_of p (map h g)"
    and "r \<in> set df" and "row_flags b r = []"
  shows "g ! idx r \<notin> set out"
proof
  assume "g ! idx r \<in> set out"
  with flagging_out[OF assms(1)] obtain r' where
    r': "r' \<in> set df" "row_flags b r' \<noteq> []" "g ! idx r' = g ! idx r"
    by auto
  from same_address_same_flags[of r' p h g r b] r'(1,3) assms(2,3)
  have "row_flags b r' = row_flags b r" by simp
  with r'(2) assms(4) show False by simp
qed

lemma flagging_invalid_not_returned:
  assumes "flag_loop b g df ([], h) = (out, h')" and "df = frame_of p (map h g)"
    and "i < length g" and "\<not> numeric_valid p (h (g ! i))"
  shows "g ! i \<notin> set out"
proof
  assume "g ! i \<in> set out"
  with flagging_out[OF assms(1)] obtain r where
    r: "r \<in> set df" "g ! idx r = g ! i"
    by auto
  from r(1) assms(2) have "r \<in> set (frame_of p (map h g))" by simp
  note fr = in_frame_of[OF this]
  from fr have "map h g ! idx r = h (g ! idx r)" by simp
  with fr r(2) have "numeric_valid p (h (g ! i))"
    unfolding numeric_valid_def by metis
  with assms(4) show False by simp
qed

section \<open>The claims\<close>



text \<open>
  C3. A group with fewer than 4 fully valid records gives the empty result and no error,
  and leaves the store as it was: whether the group itself has fewer than 4 records,
  fewer than 4 survive the numeric coercion, or fewer than 4 survive the filter on the
  derived ratios. A group of 4 records or more is taken to have the three required
  numeric fields as columns of its frame.
\<close>

theorem undersized_group_empty:
  assumes "length g < 4 \<or> has_numeric_cols (map h g)"
    and "length g < 4 \<or> length (filter (numeric_valid p) (map h g)) < 4 \<or>
         length (filter (fully_valid p) (map h g)) < 4"
  shows "detect_outliers p h g = Inr ([], h)"
  using assms(2) by (simp add: detect_outliers_eq[OF assms(1)])

theorem undersized_group_empty_witness:
  "has_numeric_cols (map (heap_of three_valid_rows) [0..<5]) \<and>
   length (filter (numeric_valid to_numeric_digits) (map (heap_of three_valid_rows) [0..<5])) = 4 \<and>
   length (filter (fully_valid to_numeric_digits) (map (heap_of three_valid_rows) [0..<5])) = 3 \<and>
   detect_outliers to_numeric_digits (heap_of three_valid_rows) [0..<5] =
     Inr ([], heap_of three_valid_rows)"
proof -
  let ?rows = "map (heap_of three_valid_rows) [0..<5]"
  have c: "has_numeric_cols ?rows"
    by code_simp
  have n: "length (filter (numeric_valid to_numeric_digits) ?rows) = 4"
    by code_simp
  have v: "length (filter (fully_valid to_numeric_digits) ?rows) = 3"
    by code_simp
  from undersized_group_empty[of "[0..<5]" "heap_of three_valid_rows" to_numeric_digits] c v
  have "detect_outliers to_numeric_digits (heap_of three_valid_rows) [0..<5] =
     Inr ([], heap_of three_valid_rows)"
    by simp
  with c n v show ?thesis by simp
qed

text \<open>
  C1. In a group that reaches the flagging loop, the frame \<open>df\<close> the loop runs over
  holds every record that survived the numeric coercion, whether or not its derived
  ratios are valid. Each such record is tested against all four bounds: it gets the flag
  of a metric if and only if its value of that metric is valid and strictly greater than
  the metric's bound. The tests on TOTAL_PAID and TOTAL_UNIQUE_BENEFICIARIES do not read
  the ratios. The record is returned if and only if it has a flag, and its flags are what
  the returned row carries.
\<close>

theorem survivors_tested_on_all_bounds:
  assumes "frames p (map h g) = Inr (Some (df, dfc))"
    and "detect_outliers p h g = Inr (out, h')"
    and "r \<in> set df"
  shows "map idx df = filter (\<lambda>i. numeric_valid p (h (g ! i))) [0..<length g] \<and>
    (''high_total_paid'' \<in> set (row_flags (compute_bounds dfc) r) \<longleftrightarrow>
       notna (TOTAL_PAID r) \<and> fl_gt (TOTAL_PAID r) (high_total_paid (compute_bounds dfc))) \<and>
    (''high_paid_per_benef'' \<in> set (row_flags (compute_bounds dfc) r) \<longleftrightarrow>
       notna (PAID_PER_BENEF r) \<and>
       fl_gt (PAID_PER_BENEF r) (high_paid_per_benef (compute_bounds dfc))) \<and>
    (''high_paid_per_claim'' \<in> set (row_flags (compute_bounds dfc) r) \<longleftrightarrow>
       notna (PAID_PER_CLAIM r) \<and>
       fl_gt (PAID_PER_CLAIM r) (high_paid_per_claim (compute_bounds dfc))) \<and>
    (''high_unique_beneficiaries'' \<in> set (row_flags (compute_bounds dfc) r) \<longleftrightarrow>
       notna (TOTAL_UNIQUE_BENEFICIARIES r) \<and>
       fl_gt (TOTAL_UNIQUE_BENEFICIARIES r) (high_unique_benef (compute_bounds dfc))) \<and>
    set (row_flags (compute_bounds dfc) r) \<subseteq> set flag_order \<and>
    (g ! idx r \<in> set out \<longleftrightarrow> row_flags (compute_bounds dfc) r \<noteq> []) \<and>
    (row_flags (compute_bounds dfc) r \<noteq> [] \<longrightarrow>
       map_of (h' (g ! idx r)) ''OUTLIER_REASONS'' =
         Some (join '','' (row_flags (compute_bounds dfc) r)))"
proof -
  let ?b = "compute_bounds dfc"
  from frames_SomeD(1)[OF assms(1)] have df: "df = frame_of p (map h g)" .
  from detect_outliers_Some[OF assms(1)] assms(2)
  have loop: "flag_loop ?b g df ([], h) = (out, h')" by simp
  have "filter (\<lambda>i. numeric_valid p (map h g ! i)) [0..<length (map h g)] =
        filter (\<lambda>i. numeric_valid p (h (g ! i))) [0..<length g]"
    by (rule filter_cong) simp_all
  with map_idx_frame_of[of p "map h g"] df
  have survivors: "map idx df = filter (\<lambda>i. numeric_valid p (h (g ! i))) [0..<length g]"
    by simp
  have order: "set (row_flags ?b r) \<subseteq> set flag_order"
    using row_flags_order[of ?b r] by (metis filter_is_subset)
  have emitted_iff: "g ! idx r \<in> set out \<longleftrightarrow> row_flags ?b r \<noteq> []"
  proof
    assume "g ! idx r \<in> set out"
    with flagging_out[OF loop] obtain r' where
      "r' \<in> set df" "row_flags ?b r' \<noteq> []" "g ! idx r' = g ! idx r"
      by auto
    with same_address_same_flags[of r' p h g r ?b] assms(3) df
    show "row_flags ?b r \<noteq> []" by simp
  next
    assume "row_flags ?b r \<noteq> []"
    with flagging_out[OF loop] assms(3) show "g ! idx r \<in> set out" by simp
  qed
  have reasons: "row_flags ?b r \<noteq> [] \<longrightarrow>
       map_of (h' (g ! idx r)) ''OUTLIER_REASONS'' = Some (join '','' (row_flags ?b r))"
    using flagging_store[OF loop df assms(3)] by (simp add: update_conv')
  from survivors order emitted_iff reasons mem_row_flags[of ?b r]
  show ?thesis by blast
qed

theorem survivors_tested_on_all_bounds_witness:
  "\<exists>out h'.
     detect_outliers to_numeric_digits (heap_of zero_claims_rows) [0..<6] = Inr (out, h') \<and>
     zero_claims_record \<in> set (frame_of to_numeric_digits (map (heap_of zero_claims_rows) [0..<6])) \<and>
     PAID_PER_CLAIM zero_claims_record = NaN \<and>
     out = [5] \<and>
     map_of (h' 5) ''OUTLIER_REASONS'' = Some ''high_total_paid,high_paid_per_benef''"
proof -
  let ?h = "heap_of zero_claims_rows"
  let ?df = "frame_of to_numeric_digits (map ?h [0..<6])"
  let ?b = "compute_bounds (dropna_ratios ?df)"
  have f: "frames to_numeric_digits (map ?h [0..<6]) = Inr (Some (?df, dropna_ratios ?df))"
    by code_simp
  have m: "zero_claims_record \<in> set ?df"
    by code_simp
  have fl: "row_flags ?b zero_claims_record = [''high_total_paid'', ''high_paid_per_benef'']"
    by code_simp
  have e: "emitted (detect_outliers to_numeric_digits ?h [0..<6]) =
      Inr [claim_row ''99213'' ''100'' ''1'' ''0'' @
           [(''OUTLIER_REASONS'', ''high_total_paid,high_paid_per_benef'')]]"
    by code_simp
  from emitted_InrD[OF e] obtain out h' where
    d: "detect_outliers to_numeric_digits ?h [0..<6] = Inr (out, h')"
    and len: "length out = 1"
    by (metis length_map length_Cons list.size(3) One_nat_def)
  from survivors_tested_on_all_bounds[OF f d m] fl
  have "[0..<6] ! idx zero_claims_record \<in> set out"
    and "map_of (h' ([0..<6] ! idx zero_claims_record)) ''OUTLIER_REASONS'' =
         Some (join '','' [''high_total_paid'', ''high_paid_per_benef''])"
    by simp_all
  moreover have "[0..<6] ! idx zero_claims_record = 5"
    by (simp add: zero_claims_record_def)
  ultimately have "5 \<in> set out"
    and "map_of (h' 5) ''OUTLIER_REASONS'' = Some ''high_total_paid,high_paid_per_benef''"
    by simp_all
  moreover from \<open>5 \<in> set out\<close> len have "out = [5]"
    by (cases out) auto
  moreover have "PAID_PER_CLAIM zero_claims_record = NaN"
    by (simp add: zero_claims_record_def)
  ultimately show ?thesis using d m by blast
qed

text \<open>
  C9. The bounds are computed only where the three gates have let the group through, and
  there every series handed to \<^verbatim>\<open>get_upper_bound\<close> (a column of \<open>df_clean\<close>) has
  at least 4 values: the test for a short series fails and each bound is the upper IQR
  fence, never the fallback.
\<close>

theorem fallback_unreachable:
  assumes "frames p (map h g) = Inr fr"
  shows "(fr = None \<longrightarrow> detect_outliers p h g = Inr ([], h)) \<and>
    (\<forall>df dfc. fr = Some (df, dfc) \<longrightarrow>
       detect_outliers p h g = Inr (flag_loop (compute_bounds dfc) g df ([], h)) \<and>
       4 \<le> length (map TOTAL_PAID dfc) \<and>
       4 \<le> length (map PAID_PER_BENEF dfc) \<and>
       4 \<le> length (map PAID_PER_CLAIM dfc) \<and>
       4 \<le> length (map TOTAL_UNIQUE_BENEFICIARIES dfc) \<and>
       compute_bounds dfc =
         \<lparr>high_total_paid = iqr_fence (map TOTAL_PAID dfc),
          high_paid_per_benef = iqr_fence (map PAID_PER_BENEF dfc),
          high_paid_per_claim = iqr_fence (map PAID_PER_CLAIM dfc),
          high_unique_benef = iqr_fence (map TOTAL_UNIQUE_BENEFICIARIES dfc)\<rparr>)"
proof (intro conjI allI impI)
  assume "fr = None"
  with assms show "detect_outliers p h g = Inr ([], h)"
    by (simp add: detect_outliers_None)
next
  fix df dfc assume "fr = Some (df, dfc)"
  with assms have f: "frames p (map h g) = Inr (Some (df, dfc))" by simp
  from detect_outliers_Some[OF f]
  show "detect_outliers p h g = Inr (flag_loop (compute_bounds dfc) g df ([], h))" .
  from frames_SomeD(3)[OF f] have len: "4 \<le> length dfc" .
  then show "4 \<le> length (map TOTAL_PAID dfc)" "4 \<le> length (map PAID_PER_BENEF dfc)"
    "4 \<le> length (map PAID_PER_CLAIM dfc)" "4 \<le> length (map TOTAL_UNIQUE_BENEFICIARIES dfc)"
    by simp_all
  from len show "compute_bounds dfc =
         \<lparr>high_total_paid = iqr_fence (map TOTAL_PAID dfc),
          high_paid_per_benef = iqr_fence (map PAID_PER_BENEF dfc),
          high_paid_per_claim = iqr_fence (map PAID_PER_CLAIM dfc),
          high_unique_benef = iqr_fence (map TOTAL_UNIQUE_BENEFICIARIES dfc)\<rparr>"
    by (simp add: compute_bounds_def get_upper_bound_fence)
qed

theorem fallback_unreachable_witness:
  "frames to_numeric_digits (map (heap_of paid_rows) [0..<6]) =
     Inr (Some (frame_of to_numeric_digits (map (heap_of paid_rows) [0..<6]),
                dropna_ratios (frame_of to_numeric_digits (map (heap_of paid_rows) [0..<6])))) \<and>
   length (map TOTAL_PAID
     (dropna_ratios (frame_of to_numeric_digits (map (heap_of paid_rows) [0..<6])))) = 6 \<and>
   high_total_paid (compute_bounds
     (dropna_ratios (frame_of to_numeric_digits (map (heap_of paid_rows) [0..<6])))) =
   iqr_fence (map TOTAL_PAID
     (dropna_ratios (frame_of to_numeric_digits (map (heap_of paid_rows) [0..<6])))) \<and>
   get_upper_bound [Fin 1, Fin 2, Fin 3] = PInf"
proof -
  let ?df = "frame_of to_numeric_digits (map (heap_of paid_rows) [0..<6])"
  have f: "frames to_numeric_digits (map (heap_of paid_rows) [0..<6]) =
      Inr (Some (?df, dropna_ratios ?df))"
    by code_simp
  have l: "length (map TOTAL_PAID (dropna_ratios ?df)) = 6"
    by code_simp
  have i: "get_upper_bound [Fin 1, Fin 2, Fin 3] = PInf"
    by (simp add: get_upper_bound_def)
  from fallback_unreachable[OF f]
  have "compute_bounds (dropna_ratios ?df) =
         \<lparr>high_total_paid = iqr_fence (map TOTAL_PAID (dropna_ratios ?df)),
          high_paid_per_benef = iqr_fence (map PAID_PER_BENEF (dropna_ratios ?df)),
          high_paid_per_claim = iqr_fence (map PAID_PER_CLAIM (dropna_ratios ?df)),
          high_unique_benef = iqr_fence (map TOTAL_UNIQUE_BENEFICIARIES (dropna_ratios ?df))\<rparr>"
    by blast
  then have "high_total_paid (compute_bounds (dropna_ratios ?df)) =
      iqr_fence (map TOTAL_PAID (dropna_ratios ?df))"
    by simp
  with f l i show ?thesis by blast
qed

text \<open>
  C10. \<^verbatim>\<open>detect_outliers\<close> mutates its input. The returned list holds addresses of
  the group itself (the caller's own row objects, not copies), one for each record of
  the frame that has a flag, in the order of the frame. Every flagged record is
  returned, and its row in the store is the caller's row with the key OUTLIER_REASONS
  set in place to the record's joined flags. A record of the frame without a flag, a
  record that did not survive the coercion, and every row that is not returned are left
  as they were; a group stopped at a gate returns nothing and changes nothing.
\<close>

theorem detect_outliers_mutates_rows:
  assumes "detect_outliers p h g = Inr (out, h')"
  shows "(\<exists>is. out = map (\<lambda>i. g ! i) is \<and> (\<forall>i\<in>set is. i < length g)) \<and>
    (\<forall>a\<in>set out. \<exists>flags. flags \<noteq> [] \<and> set flags \<subseteq> set flag_order \<and>
       h' a = AList.update ''OUTLIER_REASONS'' (join '','' flags) (h a)) \<and>
    (\<forall>a. a \<notin> set out \<longrightarrow> h' a = h a) \<and>
    (frames p (map h g) = Inr None \<longrightarrow> out = [] \<and> h' = h) \<and>
    (\<forall>df dfc. frames p (map h g) = Inr (Some (df, dfc)) \<longrightarrow>
       map idx df = filter (\<lambda>i. numeric_valid p (h (g ! i))) [0..<length g] \<and>
       out = map (\<lambda>r. g ! idx r) (filter (\<lambda>r. row_flags (compute_bounds dfc) r \<noteq> []) df) \<and>
       (\<forall>r\<in>set df. idx r < length g \<and>
          (row_flags (compute_bounds dfc) r \<noteq> [] \<longrightarrow>
             g ! idx r \<in> set out \<and>
             h' (g ! idx r) =
               AList.update ''OUTLIER_REASONS'' (join '','' (row_flags (compute_bounds dfc) r))
                 (h (g ! idx r))) \<and>
          (row_flags (compute_bounds dfc) r = [] \<longrightarrow>
             g ! idx r \<notin> set out \<and> h' (g ! idx r) = h (g ! idx r))) \<and>
       (\<forall>i<length g. \<not> numeric_valid p (h (g ! i)) \<longrightarrow>
          g ! i \<notin> set out \<and> h' (g ! i) = h (g ! i)))"
    (is "?A \<and> ?B \<and> ?C \<and> ?N \<and> (\<forall>df dfc. ?S df dfc \<longrightarrow> ?F df dfc)")
  using assms
proof (cases rule: detect_outliers_cases)
  case skipped
  then show ?thesis by simp
next
  case (flagging df dfc)
  let ?b = "compute_bounds dfc"
  from frames_SomeD(1)[OF flagging(1)] have df: "df = frame_of p (map h g)" .
  note loop = flagging(2)
  have out: "out = map (\<lambda>r. g ! idx r) (filter (\<lambda>r. row_flags ?b r \<noteq> []) df)"
    by (rule flagging_out[OF loop])
  have bound: "idx r < length g" if "r \<in> set df" for r
    using in_frame_of[of r p "map h g"] that df by simp
  let ?is = "map idx (filter (\<lambda>r. row_flags ?b r \<noteq> []) df)"
  have "out = map (\<lambda>i. g ! i) ?is"
    using out by (simp add: o_def)
  moreover have "\<forall>i\<in>set ?is. i < length g"
    using bound by auto
  ultimately have aliases: "\<exists>is. out = map (\<lambda>i. g ! i) is \<and> (\<forall>i\<in>set is. i < length g)"
    by blast
  have updated: "\<exists>flags. flags \<noteq> [] \<and> set flags \<subseteq> set flag_order \<and>
       h' a = AList.update ''OUTLIER_REASONS'' (join '','' flags) (h a)" if "a \<in> set out" for a
  proof -
    from that out obtain r where
      r: "r \<in> set df" "row_flags ?b r \<noteq> []" "g ! idx r = a"
      by auto
    from flagging_store[OF loop df r(1,2)] r(3)
    have "h' a = AList.update ''OUTLIER_REASONS'' (join '','' (row_flags ?b r)) (h a)"
      by simp
    moreover have "set (row_flags ?b r) \<subseteq> set flag_order"
      using row_flags_order[of ?b r] by (metis filter_is_subset)
    ultimately show ?thesis using r(2) by blast
  qed
  note others = flagging_unflagged[OF loop]
  have "filter (\<lambda>i. numeric_valid p (map h g ! i)) [0..<length (map h g)] =
        filter (\<lambda>i. numeric_valid p (h (g ! i))) [0..<length g]"
    by (rule filter_cong) simp_all
  with map_idx_frame_of[of p "map h g"] df
  have survivors: "map idx df = filter (\<lambda>i. numeric_valid p (h (g ! i))) [0..<length g]"
    by simp
  have flagged: "g ! idx r \<in> set out \<and>
      h' (g ! idx r) =
        AList.update ''OUTLIER_REASONS'' (join '','' (row_flags ?b r)) (h (g ! idx r))"
    if "r \<in> set df" "row_flags ?b r \<noteq> []" for r
    using that out flagging_store[OF loop df that] by simp
  have unflagged: "g ! idx r \<notin> set out \<and> h' (g ! idx r) = h (g ! idx r)"
    if "r \<in> set df" "row_flags ?b r = []" for r
    using flagging_not_returned[OF loop df that] others by simp
  have dropped: "g ! i \<notin> set out \<and> h' (g ! i) = h (g ! i)"
    if "i < length g" "\<not> numeric_valid p (h (g ! i))" for i
    using flagging_invalid_not_returned[OF loop df that] others by simp
  have frame: "?F df dfc"
    using survivors out bound flagged unflagged dropped by blast
  have "?F df' dfc'" if "?S df' dfc'" for df' dfc'
  proof -
    from that flagging(1) have eq: "df' = df" "dfc' = dfc" by simp_all
    show ?thesis unfolding eq by (rule frame)
  qed
  moreover from flagging(1) have ?N by simp
  moreover from aliases have ?A .
  moreover from updated have ?B by blast
  moreover from others have ?C by blast
  ultimately show ?thesis by blast
qed

theorem detect_outliers_mutates_rows_witness:
  "\<exists>out h'.
     detect_outliers to_numeric_digits (heap_of zero_benef_rows) [0..<6] = Inr (out, h') \<and>
     zero_benef_record \<in> set (frame_of to_numeric_digits (map (heap_of zero_benef_rows) [0..<6])) \<and>
     out = [5] \<and>
     h' 5 = AList.update ''OUTLIER_REASONS'' ''high_total_paid,high_paid_per_claim''
              (heap_of zero_benef_rows 5) \<and>
     h' 0 = heap_of zero_benef_rows 0"
proof -
  let ?h = "heap_of zero_benef_rows"
  let ?df = "frame_of to_numeric_digits (map ?h [0..<6])"
  let ?b = "compute_bounds (dropna_ratios ?df)"
  have f: "frames to_numeric_digits (map ?h [0..<6]) = Inr (Some (?df, dropna_ratios ?df))"
    by code_simp
  have m5: "zero_benef_record \<in> set ?df"
    by code_simp
  have fl5: "row_flags ?b zero_benef_record = [''high_total_paid'', ''high_paid_per_claim'']"
    by code_simp
  have m0: "?df ! 0 \<in> set ?df"
    by code_simp
  have fl0: "row_flags ?b (?df ! 0) = []"
    by code_simp
  have i0: "idx (?df ! 0) = 0"
    by code_simp
  have all: "map (\<lambda>r. [0..<6] ! idx r) (filter (\<lambda>r. row_flags ?b r \<noteq> []) ?df) = [5]"
    by code_simp
  have r: "returned (detect_outliers to_numeric_digits ?h [0..<6]) = Inr [5]"
    by code_simp
  then obtain out h' where d: "detect_outliers to_numeric_digits ?h [0..<6] = Inr (out, h')"
    by (cases "detect_outliers to_numeric_digits ?h [0..<6]") (auto simp add: returned_def)
  from detect_outliers_mutates_rows[OF d] f
  have frame: "out = map (\<lambda>r. [0..<6] ! idx r) (filter (\<lambda>r. row_flags ?b r \<noteq> []) ?df)"
    and rows: "\<forall>r\<in>set ?df.
          (row_flags ?b r \<noteq> [] \<longrightarrow>
             h' ([0..<6] ! idx r) =
               AList.update ''OUTLIER_REASONS'' (join '','' (row_flags ?b r))
                 (?h ([0..<6] ! idx r))) \<and>
          (row_flags ?b r = [] \<longrightarrow> h' ([0..<6] ! idx r) = ?h ([0..<6] ! idx r))"
    by blast+
  from frame all have out: "out = [5]" by simp
  from rows m5 fl5 have "h' ([0..<6] ! idx zero_benef_record) =
      AList.update ''OUTLIER_REASONS'' (join '','' [''high_total_paid'', ''high_paid_per_claim''])
        (?h ([0..<6] ! idx zero_benef_record))"
    by (metis list.distinct(1))
  moreover have "[0..<6] ! idx zero_benef_record = 5"
    by (simp add: zero_benef_record_def)
  ultimately have five: "h' 5 =
      AList.update ''OUTLIER_REASONS'' ''high_total_paid,high_paid_per_claim'' (?h 5)"
    by simp
  from rows m0 fl0 i0 have zero: "h' 0 = ?h 0"
    by (metis nth_upt add_0 zero_less_numeral)
  from d m5 out five zero show ?thesis by blast
qed

text \<open>
  The rows the detector returns, for every input. A record of the frame is returned if
  and only if its flag set is not empty. The returned row keeps the value of every field
  other than OUTLIER_REASONS and the order of its fields; the field OUTLIER_REASONS is
  appended when the row had none, and its value is the names of the flags the record
  raised, joined by commas in the fixed check order.
\<close>

theorem emitted_rows_annotated:
  assumes "detect_outliers p h g = Inr (out, h')"
  shows "(frames p (map h g) = Inr None \<longrightarrow> out = []) \<and>
    (\<forall>df dfc. frames p (map h g) = Inr (Some (df, dfc)) \<longrightarrow>
       out = map (\<lambda>r. g ! idx r) (filter (\<lambda>r. row_flags (compute_bounds dfc) r \<noteq> []) df) \<and>
       (\<forall>r\<in>set df.
          (g ! idx r \<in> set out \<longleftrightarrow> row_flags (compute_bounds dfc) r \<noteq> []) \<and>
          row_flags (compute_bounds dfc) r =
            filter (\<lambda>n. n \<in> set (row_flags (compute_bounds dfc) r)) flag_order \<and>
          (row_flags (compute_bounds dfc) r \<noteq> [] \<longrightarrow>
             (\<forall>k. k \<noteq> ''OUTLIER_REASONS'' \<longrightarrow>
                map_of (h' (g ! idx r)) k = map_of (h (g ! idx r)) k) \<and>
             map fst (h' (g ! idx r)) =
               (if ''OUTLIER_REASONS'' \<in> set (map fst (h (g ! idx r)))
                then map fst (h (g ! idx r))
                else map fst (h (g ! idx r)) @ [''OUTLIER_REASONS'']) \<and>
             map_of (h' (g ! idx r)) ''OUTLIER_REASONS'' =
               Some (join '','' (row_flags (compute_bounds dfc) r)))))"
    (is "?N \<and> (\<forall>df dfc. ?S df dfc \<longrightarrow> ?F df dfc)")
  using assms
proof (cases rule: detect_outliers_cases)
  case skipped
  then show ?thesis by simp
next
  case (flagging df dfc)
  let ?b = "compute_bounds dfc"
  from frames_SomeD(1)[OF flagging(1)] have df: "df = frame_of p (map h g)" .
  note loop = flagging(2)
  have out: "out = map (\<lambda>r. g ! idx r) (filter (\<lambda>r. row_flags ?b r \<noteq> []) df)"
    by (rule flagging_out[OF loop])
  have iff: "g ! idx r \<in> set out \<longleftrightarrow> row_flags ?b r \<noteq> []" if "r \<in> set df" for r
    using flagging_not_returned[OF loop df that] out that by auto
  have row: "(\<forall>k. k \<noteq> ''OUTLIER_REASONS'' \<longrightarrow>
                map_of (h' (g ! idx r)) k = map_of (h (g ! idx r)) k) \<and>
             map fst (h' (g ! idx r)) =
               (if ''OUTLIER_REASONS'' \<in> set (map fst (h (g ! idx r)))
                then map fst (h (g ! idx r))
                else map fst (h (g ! idx r)) @ [''OUTLIER_REASONS'']) \<and>
             map_of (h' (g ! idx r)) ''OUTLIER_REASONS'' = Some (join '','' (row_flags ?b r))"
    if "r \<in> set df" "row_flags ?b r \<noteq> []" for r
  proof -
    note upd = flagging_store[OF loop df that]
    have "\<forall>k. k \<noteq> ''OUTLIER_REASONS'' \<longrightarrow>
        map_of (h' (g ! idx r)) k = map_of (h (g ! idx r)) k"
      by (simp add: upd update_conv')
    moreover have "map fst (h' (g ! idx r)) =
               (if ''OUTLIER_REASONS'' \<in> set (map fst (h (g ! idx r)))
                then map fst (h (g ! idx r))
                else map fst (h (g ! idx r)) @ [''OUTLIER_REASONS''])"
      unfolding upd by (rule update_keys)
    moreover have "map_of (h' (g ! idx r)) ''OUTLIER_REASONS'' =
        Some (join '','' (row_flags ?b r))"
      by (simp add: upd update_conv')
    ultimately show ?thesis by blast
  qed
  have frame: "?F df dfc"
    using out iff row row_flags_order[of ?b] by blast
  have "?F df' dfc'" if "?S df' dfc'" for df' dfc'
  proof -
    from that flagging(1) have eq: "df' = df" "dfc' = dfc" by simp_all
    show ?thesis unfolding eq by (rule frame)
  qed
  moreover from flagging(1) have ?N by simp
  ultimately show ?thesis by blast
qed

theorem emitted_rows_annotated_witness:
  "\<exists>out h'.
     detect_outliers to_numeric_digits (heap_of paid_rows) [0..<6] = Inr (out, h') \<and>
     out = [5] \<and>
     map_of (h' 5) ''TOTAL_PAID'' = Some ''100'' \<and>
     map fst (h' 5) = map fst (heap_of paid_rows 5) @ [''OUTLIER_REASONS''] \<and>
     map_of (h' 5) ''OUTLIER_REASONS'' =
       Some ''high_total_paid,high_paid_per_benef,high_paid_per_claim''"
proof -
  let ?h = "heap_of paid_rows"
  let ?df = "frame_of to_numeric_digits (map ?h [0..<6])"
  let ?b = "compute_bounds (dropna_ratios ?df)"
  have f: "frames to_numeric_digits (map ?h [0..<6]) = Inr (Some (?df, dropna_ratios ?df))"
    by code_simp
  have m: "?df ! 5 \<in> set ?df"
    by code_simp
  have fl: "row_flags ?b (?df ! 5) =
      [''high_total_paid'', ''high_paid_per_benef'', ''high_paid_per_claim'']"
    by code_simp
  have i5: "[0..<6] ! idx (?df ! 5) = 5"
    by code_simp
  have all: "map (\<lambda>r. [0..<6] ! idx r) (filter (\<lambda>r. row_flags ?b r \<noteq> []) ?df) = [5]"
    by code_simp
  have orig: "map_of (?h 5) ''TOTAL_PAID'' = Some ''100''"
    and absent: "''OUTLIER_REASONS'' \<notin> set (map fst (?h 5))"
    by code_simp+
  have r: "returned (detect_outliers to_numeric_digits ?h [0..<6]) = Inr [5]"
    by code_simp
  then obtain out h' where d: "detect_outliers to_numeric_digits ?h [0..<6] = Inr (out, h')"
    by (cases "detect_outliers to_numeric_digits ?h [0..<6]") (auto simp add: returned_def)
  from emitted_rows_annotated[OF d] f
  have frame: "out = map (\<lambda>r. [0..<6] ! idx r) (filter (\<lambda>r. row_flags ?b r \<noteq> []) ?df)"
    and rows: "\<forall>r\<in>set ?df. row_flags ?b r \<noteq> [] \<longrightarrow>
             (\<forall>k. k \<noteq> ''OUTLIER_REASONS'' \<longrightarrow>
                map_of (h' ([0..<6] ! idx r)) k = map_of (?h ([0..<6] ! idx r)) k) \<and>
             map fst (h' ([0..<6] ! idx r)) =
               (if ''OUTLIER_REASONS'' \<in> set (map fst (?h ([0..<6] ! idx r)))
                then map fst (?h ([0..<6] ! idx r))
                else map fst (?h ([0..<6] ! idx r)) @ [''OUTLIER_REASONS'']) \<and>
             map_of (h' ([0..<6] ! idx r)) ''OUTLIER_REASONS'' =
               Some (join '','' (row_flags ?b r))"
    by blast+
  from frame all have out: "out = [5]" by simp
  from rows m fl have
    "(\<forall>k. k \<noteq> ''OUTLIER_REASONS'' \<longrightarrow>
        map_of (h' ([0..<6] ! idx (?df ! 5))) k = map_of (?h ([0..<6] ! idx (?df ! 5))) k) \<and>
     map fst (h' ([0..<6] ! idx (?df ! 5))) =
       (if ''OUTLIER_REASONS'' \<in> set (map fst (?h ([0..<6] ! idx (?df ! 5))))
        then map fst (?h ([0..<6] ! idx (?df ! 5)))
        else map fst (?h ([0..<6] ! idx (?df ! 5))) @ [''OUTLIER_REASONS'']) \<and>
     map_of (h' ([0..<6] ! idx (?df ! 5))) ''OUTLIER_REASONS'' =
       Some (join '','' [''high_total_paid'', ''high_paid_per_benef'', ''high_paid_per_claim''])"
    by (metis list.distinct(1))
  then have "map_of (h' 5) ''TOTAL_PAID'' = map_of (?h 5) ''TOTAL_PAID''"
    and "map fst (h' 5) =
       (if ''OUTLIER_REASONS'' \<in> set (map fst (?h 5)) then map fst (?h 5)
        else map fst (?h 5) @ [''OUTLIER_REASONS''])"
    and "map_of (h' 5) ''OUTLIER_REASONS'' =
       Some ''high_total_paid,high_paid_per_benef,high_paid_per_claim''"
    unfolding i5 by simp_all
  with orig absent d out show ?thesis by auto
qed

text \<open>
  C7. The detector is to return each flagged record with every original field value
  unchanged and exactly one added field OUTLIER_REASONS. On a row that already has a
  field of that name (the output file of an earlier run, read again) it does not: the
  row at index 5 is returned with the original value \<open>high_total_paid\<close> of that field
  replaced by \<open>high_total_paid,high_paid_per_claim\<close>, and with no field added.
\<close>

theorem emitted_row_overwrites_reasons:
  "returned (detect_outliers to_numeric_digits (heap_of rerun_rows) [0..<6]) = Inr [5] \<and>
   heap_of rerun_rows 5 =
     claim_row ''99213'' ''100'' ''0'' ''2'' @ [(''OUTLIER_REASONS'', ''high_total_paid'')] \<and>
   emitted (detect_outliers to_numeric_digits (heap_of rerun_rows) [0..<6]) =
     Inr [claim_row ''99213'' ''100'' ''0'' ''2'' @
          [(''OUTLIER_REASONS'', ''high_total_paid,high_paid_per_claim'')]]"
  by code_simp

text \<open>
  C2. A group of six fully valid records whose TOTAL_PAID values are 10, 12, 13, 14, 15
  and 100 passes the gates with all six records in \<open>df_clean\<close>; the quartiles by linear
  interpolation are Q1 = 12.25 and Q3 = 14.75, the bound on TOTAL_PAID is 18.5, and the
  flag high_total_paid is raised for the record with TOTAL_PAID = 100 (the one at index
  5) and for no other. That record is returned and carries the flag.
\<close>

theorem literal_paid_scenario:
  assumes "map (\<lambda>a. cell p (h a) ''TOTAL_PAID'') g =
             [Fin 10, Fin 12, Fin 13, Fin 14, Fin 15, Fin 100]"
    and "\<forall>a\<in>set g. fully_valid p (h a)"
  shows "\<exists>df out h'.
    frames p (map h g) = Inr (Some (df, df)) \<and>
    map idx df = [0..<6] \<and>
    map TOTAL_PAID df = [Fin 10, Fin 12, Fin 13, Fin 14, Fin 15, Fin 100] \<and>
    quantile (map TOTAL_PAID df) (1 / 4) = Fin (49 / 4) \<and>
    quantile (map TOTAL_PAID df) (3 / 4) = Fin (59 / 4) \<and>
    high_total_paid (compute_bounds df) = Fin (37 / 2) \<and>
    filter (\<lambda>r. ''high_total_paid'' \<in> set (row_flags (compute_bounds df) r)) df = [df ! 5] \<and>
    detect_outliers p h g = Inr (out, h') \<and>
    g ! 5 \<in> set out \<and>
    map_of (h' (g ! 5)) ''OUTLIER_REASONS'' =
      Some (join '','' (row_flags (compute_bounds df) (df ! 5))) \<and>
    ''high_total_paid'' \<in> set (row_flags (compute_bounds df) (df ! 5))"
proof -
  let ?rows = "map h g"
  let ?df = "frame_of p ?rows"
  let ?b = "compute_bounds ?df"
  from assms(1) have "length (map (\<lambda>a. cell p (h a) ''TOTAL_PAID'') g) = 6" by simp
  then have len: "length g = 6" by simp
  from assms(2) have valid: "\<forall>r\<in>set ?rows. fully_valid p r" by simp
  from len have f: "frames p ?rows = Inr (Some (?df, ?df))"
    by (intro frames_all_valid[OF valid]) simp
  from frame_of_all_valid_columns[OF valid] len assms(1)
  have idx: "map idx ?df = [0..<6]"
    and paid: "map TOTAL_PAID ?df = [Fin 10, Fin 12, Fin 13, Fin 14, Fin 15, Fin 100]"
    and len_df: "length ?df = 6"
    by (simp_all add: o_def)
  have bound: "high_total_paid ?b = Fin (37 / 2)"
    by (simp add: compute_bounds_def paid paid_quantiles)
  have at: "TOTAL_PAID (?df ! i) = [Fin 10, Fin 12, Fin 13, Fin 14, Fin 15, Fin 100] ! i"
    if "i < 6" for i
    using that len_df nth_map[of i ?df TOTAL_PAID] paid by simp
  have flag: "''high_total_paid'' \<in> set (row_flags ?b (?df ! i)) \<longleftrightarrow> i = 5" if "i < 6" for i
    using that at[OF that]
    by (auto simp add: mem_row_flags bound notna_def nth_Cons' less_Suc_eq numeral_eq_Suc)
  have only: "filter (\<lambda>r. ''high_total_paid'' \<in> set (row_flags ?b r)) ?df = [?df ! 5]"
    by (subst (2) list6[OF len_df]) (simp add: flag)
  obtain out h' where loop: "flag_loop ?b g ?df ([], h) = (out, h')"
    by (cases "flag_loop ?b g ?df ([], h)")
  with detect_outliers_Some[OF f] have d: "detect_outliers p h g = Inr (out, h')" by simp
  have mem: "?df ! 5 \<in> set ?df" using len_df by simp
  have flagged: "''high_total_paid'' \<in> set (row_flags ?b (?df ! 5))"
    using flag[of 5] by simp
  then have ne: "row_flags ?b (?df ! 5) \<noteq> []" by auto
  have i5: "idx (?df ! 5) = 5"
    using nth_map[of 5 ?df idx] len_df idx by simp
  from flagging_out[OF loop] mem ne i5 have returned: "g ! 5 \<in> set out" by force
  from flagging_store[OF loop refl mem ne] i5
  have reasons:
    "map_of (h' (g ! 5)) ''OUTLIER_REASONS'' = Some (join '','' (row_flags ?b (?df ! 5)))"
    by (simp add: update_conv')
  have q1: "quantile (map TOTAL_PAID ?df) (1 / 4) = Fin (49 / 4)"
    and q3: "quantile (map TOTAL_PAID ?df) (3 / 4) = Fin (59 / 4)"
    by (simp_all only: paid paid_quantiles)
  show ?thesis
    by (intro exI[of _ ?df] exI[of _ out] exI[of _ h'] conjI)
       (fact f idx paid q1 q3 bound only d returned reasons flagged)+
qed

theorem literal_paid_scenario_witness:
  "map (\<lambda>a. cell to_numeric_digits (heap_of paid_rows a) ''TOTAL_PAID'') [0..<6] =
     [Fin 10, Fin 12, Fin 13, Fin 14, Fin 15, Fin 100] \<and>
   list_all (\<lambda>a. fully_valid to_numeric_digits (heap_of paid_rows a)) [0..<6] \<and>
   (\<exists>df out h'.
      frames to_numeric_digits (map (heap_of paid_rows) [0..<6]) = Inr (Some (df, df)) \<and>
      high_total_paid (compute_bounds df) = Fin (37 / 2) \<and>
      filter (\<lambda>r. ''high_total_paid'' \<in> set (row_flags (compute_bounds df) r)) df = [df ! 5] \<and>
      detect_outliers to_numeric_digits (heap_of paid_rows) [0..<6] = Inr (out, h') \<and>
      5 \<in> set out)"
proof -
  have paid: "map (\<lambda>a. cell to_numeric_digits (heap_of paid_rows a) ''TOTAL_PAID'') [0..<6] =
     [Fin 10, Fin 12, Fin 13, Fin 14, Fin 15, Fin 100]"
    by code_simp
  have valid: "list_all (\<lambda>a. fully_valid to_numeric_digits (heap_of paid_rows a)) [0..<6]"
    by code_simp
  then have "\<forall>a\<in>set [0..<6]. fully_valid to_numeric_digits (heap_of paid_rows a)"
    by (simp only: list_all_iff)
  from literal_paid_scenario[OF paid this] obtain df out h' where
    "frames to_numeric_digits (map (heap_of paid_rows) [0..<6]) = Inr (Some (df, df))"
    "high_total_paid (compute_bounds df) = Fin (37 / 2)"
    "filter (\<lambda>r. ''high_total_paid'' \<in> set (row_flags (compute_bounds df) r)) df = [df ! 5]"
    "detect_outliers to_numeric_digits (heap_of paid_rows) [0..<6] = Inr (out, h')"
    "[0..<6] ! 5 \<in> set out"
    by blast
  moreover have "[0..<6] ! 5 = (5::nat)" by simp
  ultimately show ?thesis using paid valid by auto
qed

text \<open>
  C4. In a group whose records all share the same values of the four metrics
  (TOTAL_PAID, PAID_PER_BENEF, PAID_PER_CLAIM and TOTAL_UNIQUE_BENEFICIARIES), no record
  is flagged: the result is empty and the store unchanged. Where the group reaches the
  bounds, every record of the frame has an empty flag set, and the bound of a metric
  whose shared value is finite is that value (Q1 = Q3, IQR = 0), which the strict
  comparison does not exceed. A group of 4 records or more is taken to have the three
  required numeric fields as columns of its frame.
\<close>

theorem identical_metrics_no_flag:
  assumes "length g < 4 \<or> has_numeric_cols (map h g)"
    and "\<forall>a\<in>set g. metrics p (h a) = (m1, m2, m3, m4)"
  shows "detect_outliers p h g = Inr ([], h) \<and>
    (\<forall>df dfc. frames p (map h g) = Inr (Some (df, dfc)) \<longrightarrow>
       (\<forall>r\<in>set df. row_flags (compute_bounds dfc) r = []) \<and>
       (\<forall>x. m1 = Fin x \<longrightarrow> high_total_paid (compute_bounds dfc) = Fin x) \<and>
       (\<forall>x. m2 = Fin x \<longrightarrow> high_paid_per_benef (compute_bounds dfc) = Fin x) \<and>
       (\<forall>x. m3 = Fin x \<longrightarrow> high_paid_per_claim (compute_bounds dfc) = Fin x) \<and>
       (\<forall>x. m4 = Fin x \<longrightarrow> high_unique_benef (compute_bounds dfc) = Fin x))"
proof -
  have inner: "(\<forall>r\<in>set df. row_flags (compute_bounds dfc) r = []) \<and>
       (\<forall>x. m1 = Fin x \<longrightarrow> high_total_paid (compute_bounds dfc) = Fin x) \<and>
       (\<forall>x. m2 = Fin x \<longrightarrow> high_paid_per_benef (compute_bounds dfc) = Fin x) \<and>
       (\<forall>x. m3 = Fin x \<longrightarrow> high_paid_per_claim (compute_bounds dfc) = Fin x) \<and>
       (\<forall>x. m4 = Fin x \<longrightarrow> high_unique_benef (compute_bounds dfc) = Fin x)"
    if f: "frames p (map h g) = Inr (Some (df, dfc))" for df dfc
  proof -
    note cols = shared_metrics_columns[OF f assms(2)]
    from frames_SomeD(3)[OF f] have len: "4 \<le> length dfc" .
    from cols have c1: "\<forall>x\<in>set (map TOTAL_PAID dfc). x = m1"
      and c2: "\<forall>x\<in>set (map PAID_PER_BENEF dfc). x = m2"
      and c3: "\<forall>x\<in>set (map PAID_PER_CLAIM dfc). x = m3"
      and c4: "\<forall>x\<in>set (map TOTAL_UNIQUE_BENEFICIARIES dfc). x = m4"
      by auto
    have "row_flags (compute_bounds dfc) r = []" if "r \<in> set df" for r
      using that cols(1) fence_not_exceeded[OF c1] fence_not_exceeded[OF c2]
        fence_not_exceeded[OF c3] fence_not_exceeded[OF c4]
      by (simp add: row_flags_def compute_bounds_def)
    moreover have "high_total_paid (compute_bounds dfc) = Fin x" if "m1 = Fin x" for x
      using fence_finite[of "map TOTAL_PAID dfc" x] c1 len that
      by (simp add: compute_bounds_def)
    moreover have "high_paid_per_benef (compute_bounds dfc) = Fin x" if "m2 = Fin x" for x
      using fence_finite[of "map PAID_PER_BENEF dfc" x] c2 len that
      by (simp add: compute_bounds_def)
    moreover have "high_paid_per_claim (compute_bounds dfc) = Fin x" if "m3 = Fin x" for x
      using fence_finite[of "map PAID_PER_CLAIM dfc" x] c3 len that
      by (simp add: compute_bounds_def)
    moreover have "high_unique_benef (compute_bounds dfc) = Fin x" if "m4 = Fin x" for x
      using fence_finite[of "map TOTAL_UNIQUE_BENEFICIARIES dfc" x] c4 len that
      by (simp add: compute_bounds_def)
    ultimately show ?thesis by blast
  qed
  have "detect_outliers p h g = Inr ([], h)"
  proof (cases "frames p (map h g)")
    case (Inl e)
    with frames_eq[of "map h g" p] assms(1) show ?thesis by auto
  next
    case (Inr fr)
    show ?thesis
    proof (cases fr)
      case None
      with Inr show ?thesis by (simp add: detect_outliers_None)
    next
      case (Some pair)
      then obtain df dfc where f: "frames p (map h g) = Inr (Some (df, dfc))"
        using Inr by (cases pair) simp
      from inner[OF f] have "\<forall>r\<in>set df. row_flags (compute_bounds dfc) r = []" by blast
      from flag_loop_none[OF this] detect_outliers_Some[OF f] show ?thesis by simp
    qed
  qed
  with inner show ?thesis by blast
qed

theorem identical_metrics_no_flag_witness:
  "has_numeric_cols (map (heap_of same_rows) [0..<5]) \<and>
   list_all (\<lambda>a. metrics to_numeric_digits (heap_of same_rows a) = (Fin 10, Fin 10, Fin 5, Fin 1))
     [0..<5] \<and>
   frames to_numeric_digits (map (heap_of same_rows) [0..<5]) =
     Inr (Some (frame_of to_numeric_digits (map (heap_of same_rows) [0..<5]),
                dropna_ratios (frame_of to_numeric_digits (map (heap_of same_rows) [0..<5])))) \<and>
   high_paid_per_claim (compute_bounds
     (dropna_ratios (frame_of to_numeric_digits (map (heap_of same_rows) [0..<5])))) = Fin 5 \<and>
   detect_outliers to_numeric_digits (heap_of same_rows) [0..<5] = Inr ([], heap_of same_rows)"
proof -
  let ?rows = "map (heap_of same_rows) [0..<5]"
  let ?df = "frame_of to_numeric_digits ?rows"
  have c: "has_numeric_cols ?rows"
    by code_simp
  have m: "list_all (\<lambda>a. metrics to_numeric_digits (heap_of same_rows a) =
      (Fin 10, Fin 10, Fin 5, Fin 1)) [0..<5]"
    by code_simp
  then have m': "\<forall>a\<in>set [0..<5]. metrics to_numeric_digits (heap_of same_rows a) =
      (Fin 10, Fin 10, Fin 5, Fin 1)"
    by (simp only: list_all_iff)
  have f: "frames to_numeric_digits ?rows = Inr (Some (?df, dropna_ratios ?df))"
    by code_simp
  from identical_metrics_no_flag[OF disjI2[OF c] m'] f
  have "detect_outliers to_numeric_digits (heap_of same_rows) [0..<5] =
      Inr ([], heap_of same_rows)"
    and "high_paid_per_claim (compute_bounds (dropna_ratios ?df)) = Fin 5"
    by blast+
  with c m f show ?thesis by blast
qed

text \<open>
  C8. The two variants are different detection policies. The chunked
  \<^verbatim>\<open>detect_outliers\<close> selects a record of a group of 4 or more if and only if its
  TOTAL_PAID is strictly greater than the upper IQR fence of the group's TOTAL_PAID, so
  the indices it selects depend on the TOTAL_PAID column alone. The streaming variant
  tests four metrics: on the six records that differ only in TOTAL_UNIQUE_BENEFICIARIES
  it returns the last record, flagged high_unique_beneficiaries, where the chunked
  variant selects nothing.
\<close>

theorem chunked_flags_on_total_paid_only:
  "(\<forall>grp r. r \<in> set (detect_outliers_chunked grp) \<longleftrightarrow>
      r \<in> set grp \<and> 4 \<le> length grp \<and>
      fl_gt (TOTAL_PAID r) (iqr_fence (map TOTAL_PAID grp))) \<and>
   (\<forall>grp grp'. map TOTAL_PAID grp = map TOTAL_PAID grp' \<and> map idx grp = map idx grp' \<longrightarrow>
      map idx (detect_outliers_chunked grp) = map idx (detect_outliers_chunked grp')) \<and>
   returned (detect_outliers to_numeric_digits (heap_of benef_outlier_rows) [0..<6]) = Inr [5] \<and>
   emitted (detect_outliers to_numeric_digits (heap_of benef_outlier_rows) [0..<6]) =
     Inr [claim_row ''99213'' ''10'' ''100'' ''2'' @
          [(''OUTLIER_REASONS'', ''high_unique_beneficiaries'')]] \<and>
   chunked_on to_numeric_digits (map (heap_of benef_outlier_rows) [0..<6]) = Inr []"
proof (intro conjI allI impI)
  fix grp :: "frame_row list" and r
  show "r \<in> set (detect_outliers_chunked grp) \<longleftrightarrow>
      r \<in> set grp \<and> 4 \<le> length grp \<and>
      fl_gt (TOTAL_PAID r) (iqr_fence (map TOTAL_PAID grp))"
    by (auto simp add: detect_outliers_chunked_eq)
next
  fix grp grp' :: "frame_row list"
  assume eq: "map TOTAL_PAID grp = map TOTAL_PAID grp' \<and> map idx grp = map idx grp'"
  then have len: "length grp = length grp'" by (metis length_map)
  show "map idx (detect_outliers_chunked grp) = map idx (detect_outliers_chunked grp')"
    using eq len
    by (simp add: detect_outliers_chunked_eq
        map_filter_zip[of idx "\<lambda>v. fl_gt v (iqr_fence (map TOTAL_PAID grp'))" TOTAL_PAID])
next
  show "returned (detect_outliers to_numeric_digits (heap_of benef_outlier_rows) [0..<6]) = Inr [5]"
    by code_simp
  show "emitted (detect_outliers to_numeric_digits (heap_of benef_outlier_rows) [0..<6]) =
     Inr [claim_row ''99213'' ''10'' ''100'' ''2'' @
          [(''OUTLIER_REASONS'', ''high_unique_beneficiaries'')]]"
    by code_simp
  show "chunked_on to_numeric_digits (map (heap_of benef_outlier_rows) [0..<6]) = Inr []"
    by code_simp
qed

theorem chunked_flags_on_total_paid_only_witness:
  "length paid_frame = 6 \<and>
   iqr_fence (map TOTAL_PAID paid_frame) = Fin (37 / 2) \<and>
   paid_frame ! 5 \<in> set (detect_outliers_chunked paid_frame) \<and>
   paid_frame ! 4 \<notin> set (detect_outliers_chunked paid_frame)"
proof -
  have l: "length paid_frame = 6"
    by code_simp
  have f: "iqr_fence (map TOTAL_PAID paid_frame) = Fin (37 / 2)"
    by code_simp
  have p5: "TOTAL_PAID (paid_frame ! 5) = Fin 100" and p4: "TOTAL_PAID (paid_frame ! 4) = Fin 15"
    by code_simp+
  have m: "paid_frame ! 5 \<in> set paid_frame" "paid_frame ! 4 \<in> set paid_frame"
    using l by simp_all
  from chunked_flags_on_total_paid_only l f p5 p4 m
  have "paid_frame ! 5 \<in> set (detect_outliers_chunked paid_frame)"
    and "paid_frame ! 4 \<notin> set (detect_outliers_chunked paid_frame)"
    by simp_all
  with l f show ?thesis by blast
qed

text \<open>
  C6. After the input is exhausted the driver hands the pending group to the detector.
  For an input that ends with a run \<open>g\<close> of rows of one key \<open>k\<close>, after rows \<open>xs\<close> that
  end with another key (or after none), the run over the whole input is the run over
  \<open>xs\<close> (which ends by flushing the last group of \<open>xs\<close>, as the loop does at the change of
  key) followed by the detector on \<open>g\<close>: the rows it returns are appended to the output
  and counted, exactly as those of an earlier group are. An error of the run is an error
  of both sides.
\<close>

theorem final_group_flushed:
  assumes "g \<noteq> []"
    and "\<forall>a\<in>set g. row_key (h a) = Inr k"
    and "xs = [] \<or> row_key (h (last xs)) \<noteq> Inr k"
  shows "main_read p h (xs @ g) =
    bind_err (main_read p h xs) (\<lambda>st.
      bind_err (detect_outliers p (store st) g) (\<lambda>(outliers, h').
        Inr (st\<lparr>outlier_rows := outlier_rows st @ outliers,
                total_outliers := total_outliers st + length outliers,
                total_rows_processed := total_rows_processed st + length g,
                current_group_rows := g,
                current_key := Some k,
                store := h'\<rparr>)))"
proof (cases "main_loop p (initial_state h) xs")
  case (Inl e)
  then show ?thesis by (simp add: main_read_def main_loop_append)
next
  case (Inr st1)
  from assms(1) obtain a g' where g: "g = a # g'" by (cases g) auto
  from main_loop_InrD(1)[OF Inr] have keys1: "row_key (store st1 b) = row_key (h b)" for b
    by (simp add: initial_state_def)
  with assms(2) have ka: "row_key (store st1 a) = Inr k" by (simp add: g)
  have new: "current_key st1 \<noteq> Some k"
  proof (cases "xs = []")
    case True
    with Inr have "st1 = initial_state h" by simp
    then show ?thesis by (simp add: initial_state_def)
  next
    case False
    with main_loop_InrD(2)[OF Inr] assms(3) show ?thesis
      by (auto simp add: initial_state_def)
  qed
  have lhs: "main_read p h (xs @ g) =
    bind_err (bind_err (main_step p st1 a) (\<lambda>s. main_loop p s g')) (\<lambda>st.
      if current_group_rows st \<noteq> [] then process_group p st else Inr st)"
    by (simp add: main_read_def main_loop_append Inr g)
  have rest: "bind_err (main_loop p s g') (\<lambda>st.
      if current_group_rows st \<noteq> [] then process_group p st else Inr st) =
    bind_err (detect_outliers p (store s) g) (\<lambda>(outliers, h').
        Inr (s\<lparr>outlier_rows := outlier_rows s @ outliers,
                total_outliers := total_outliers s + length outliers,
                total_rows_processed := total_rows_processed s + length g',
                current_group_rows := g,
                store := h'\<rparr>))"
    if s: "current_key s = Some k" "current_group_rows s = [a]"
      "\<forall>b. row_key (store s b) = row_key (h b)" for s
  proof -
    from s(3) assms(2) have "\<forall>a\<in>set g'. row_key (store s a) = Inr k" by (simp add: g)
    from main_loop_same_key[OF this s(1), of p] s(2) show ?thesis
      by (auto simp add: process_group_eq g bind_err_def split: sum.splits)
  qed
  show ?thesis
  proof (cases "current_group_rows st1 \<noteq> []")
    case False
    let ?s = "st1\<lparr>total_rows_processed := total_rows_processed st1 + 1,
                  current_group_rows := [a], current_key := Some k\<rparr>"
    from False main_step_new_key[OF ka new, of p] have step: "main_step p st1 a = Inr ?s"
      by simp
    have "main_read p h xs = Inr st1"
      using False Inr by (simp add: main_read_def)
    moreover have "main_read p h (xs @ g) =
      bind_err (detect_outliers p (store ?s) g) (\<lambda>(outliers, h').
        Inr (?s\<lparr>outlier_rows := outlier_rows ?s @ outliers,
                total_outliers := total_outliers ?s + length outliers,
                total_rows_processed := total_rows_processed ?s + length g',
                current_group_rows := g,
                store := h'\<rparr>))"
      unfolding lhs step bind_err_simps
      by (rule rest) (simp_all add: keys1)
    ultimately show ?thesis
      by (auto simp add: g bind_err_def split: sum.splits)
  next
    case True
    then have read: "main_read p h xs = process_group p st1"
      using Inr by (simp add: main_read_def)
    show ?thesis
    proof (cases "process_group p st1")
      case (Inl e)
      with True main_step_new_key[OF ka new, of p] show ?thesis
        by (simp add: lhs read)
    next
      case pg: (Inr st2)
      let ?s = "st2\<lparr>total_rows_processed := total_rows_processed st1 + 1,
                  current_group_rows := [a], current_key := Some k\<rparr>"
      from True pg main_step_new_key[OF ka new, of p] have step: "main_step p st1 a = Inr ?s"
        by simp
      from process_group_InrD[OF pg] keys1
      have keys2: "\<forall>b. row_key (store st2 b) = row_key (h b)"
        and trp: "total_rows_processed st2 = total_rows_processed st1"
        by simp_all
      have "main_read p h (xs @ g) =
        bind_err (detect_outliers p (store ?s) g) (\<lambda>(outliers, h').
          Inr (?s\<lparr>outlier_rows := outlier_rows ?s @ outliers,
                total_outliers := total_outliers ?s + length outliers,
                total_rows_processed := total_rows_processed ?s + length g',
                current_group_rows := g,
                store := h'\<rparr>))"
        unfolding lhs step bind_err_simps
        by (rule rest) (simp_all add: keys2)
      then show ?thesis
        by (auto simp add: read pg g trp bind_err_def split: sum.splits)
    qed
  qed
qed

theorem final_group_flushed_witness:
  "list_all (\<lambda>a. row_key (heap_of two_group_rows a) = Inr (''99213'', ''2024-01'')) [4..<10] \<and>
   row_key (heap_of two_group_rows (last [0..<4])) = Inr (''A0425'', ''2024-01'') \<and>
   main_read to_numeric_digits (heap_of two_group_rows) ([0..<4] @ [4..<10]) =
     bind_err (main_read to_numeric_digits (heap_of two_group_rows) [0..<4]) (\<lambda>st.
       bind_err (detect_outliers to_numeric_digits (store st) [4..<10]) (\<lambda>(outliers, h').
         Inr (st\<lparr>outlier_rows := outlier_rows st @ outliers,
                 total_outliers := total_outliers st + length outliers,
                 total_rows_processed := total_rows_processed st + length [4..<10],
                 current_group_rows := [4..<10],
                 current_key := Some (''99213'', ''2024-01''),
                 store := h'\<rparr>))) \<and>
   main to_numeric_digits (heap_of two_group_rows) [0..<10] =
     Inr (Some [claim_row ''99213'' ''100'' ''1'' ''2'' @
                [(''OUTLIER_REASONS'',
                  ''high_total_paid,high_paid_per_benef,high_paid_per_claim'')]])"
proof -
  let ?h = "heap_of two_group_rows"
  have ne: "[4..<10] \<noteq> []"
    by simp
  have keys: "list_all (\<lambda>a. row_key (?h a) = Inr (''99213'', ''2024-01'')) [4..<10]"
    by code_simp
  then have keys': "\<forall>a\<in>set [4..<10]. row_key (?h a) = Inr (''99213'', ''2024-01'')"
    by (simp only: list_all_iff)
  have other: "row_key (?h (last [0..<4])) = Inr (''A0425'', ''2024-01'')"
    by code_simp
  then have other': "[0..<4] = [] \<or> row_key (?h (last [0..<4])) \<noteq> Inr (''99213'', ''2024-01'')"
    by simp
  have out: "main to_numeric_digits ?h [0..<10] =
     Inr (Some [claim_row ''99213'' ''100'' ''1'' ''2'' @
                [(''OUTLIER_REASONS'',
                  ''high_total_paid,high_paid_per_benef,high_paid_per_claim'')]])"
    by code_simp
  from final_group_flushed[OF ne keys' other', of to_numeric_digits] keys other out
  show ?thesis by blast
qed

end
